theory Spec2Isabelle
  imports Complex_Main "HOL-Library.Sublist"
begin

section \<open>ComChemKit: the Gaussian backend and the backend registry\<close>

text \<open>
  The development embeds \<^verbatim>\<open>src/gaussian/gaussian_program.cpp\<close> and
  \<^verbatim>\<open>src/core/cck_qm_program.cpp\<close>. C++ exceptions are values of a sum type, the file
  system is a map from paths to what a stream finds there, and the ECMAScript patterns of
  \<^verbatim>\<open>std::regex\<close> are run by a backtracking matcher that returns its alternatives in
  the order the library tries them.
\<close>

subsection \<open>Exceptions and files\<close>

text \<open>
  Every exception the two files throw is a \<^verbatim>\<open>std::runtime_error\<close>; \<^verbatim>\<open>std::stod\<close> throws
  \<^verbatim>\<open>std::invalid_argument\<close> or \<^verbatim>\<open>std::out_of_range\<close>. All handlers catch
  \<^verbatim>\<open>std::exception\<close> and read \<^verbatim>\<open>what()\<close>.
\<close>

datatype exn = RuntimeError string | InvalidArgument string | OutOfRange string

fun what :: "exn \<Rightarrow> string" where
  "what (RuntimeError m) = m"
| "what (InvalidArgument m) = m"
| "what (OutOfRange m) = m"

text \<open>
  What \<^verbatim>\<open>std::ifstream\<close> finds at a path. The stream cannot be opened (no such file, no
  permission); or it opens and every byte is read; or it opens and the read fails after
  some bytes, none for a directory. \<^verbatim>\<open>parse_output_file\<close> tests \<^verbatim>\<open>is_open()\<close> only and
  never the state of the stream after \<^verbatim>\<open>buffer << file.rdbuf()\<close>: a failed read sets a
  fail bit, throws nothing, and the bytes read so far are returned.
\<close>

datatype file_state = CannotOpen | ReadFails string | Readable string

type_synonym filesystem = "string \<Rightarrow> file_state"

text \<open>The bytes \<^verbatim>\<open>buffer.str()\<close> holds when the stream was opened.\<close>

fun bytes_read :: "file_state \<Rightarrow> string option" where
  "bytes_read CannotOpen = None"
| "bytes_read (ReadFails partial) = Some partial"
| "bytes_read (Readable content) = Some content"

definition parse_output_file :: "filesystem \<Rightarrow> string \<Rightarrow> exn + string" where
  "parse_output_file fs filepath =
     (case fs filepath of
        CannotOpen \<Rightarrow> Inl (RuntimeError (''Could not open file: '' @ filepath))
      | ReadFails partial \<Rightarrow> Inr partial
      | Readable content \<Rightarrow> Inr content)"

text \<open>The file system with one readable file, for the examples.\<close>

definition single_file :: "string \<Rightarrow> string \<Rightarrow> filesystem" where
  "single_file path content = (\<lambda>p. if p = path then Readable content else CannotOpen)"

subsection \<open>Substring search\<close>

text \<open>\<^verbatim>\<open>std::string::find\<close>: the position of the first occurrence, \<open>None\<close> for \<^verbatim>\<open>npos\<close>.\<close>

fun str_find :: "string \<Rightarrow> string \<Rightarrow> nat option" where
  "str_find [] w = (if w = [] then Some 0 else None)"
| "str_find (x # xs) w =
     (if prefix w (x # xs) then Some 0 else map_option Suc (str_find xs w))"

definition contains :: "string \<Rightarrow> string \<Rightarrow> bool" where
  "contains s w = (str_find s w \<noteq> None)"

subsection \<open>Regular expressions\<close>

text \<open>
  The fragment of the ECMAScript grammar the program's patterns use: literal characters,
  bracket expressions with \<^verbatim>\<open>\s\<close> and \<^verbatim>\<open>\d\<close>, sequence, alternation, greedy and lazy
  repetition, and numbered capture groups. \<^verbatim>\<open>r+\<close> is \<open>Seq r (Star g r)\<close> and
  \<^verbatim>\<open>r?\<close> is \<open>Alt r Eps\<close>. No pattern of the program has a capture group under a
  repetition.
\<close>

datatype citem = CChar char | CRange char char | CSpace | CDigit

datatype regex =
    Eps
  | Lit char
  | Cls bool "citem list"
  | Seq regex regex
  | Alt regex regex
  | Star bool regex
  | Grp nat regex

fun citem_matches :: "citem \<Rightarrow> char \<Rightarrow> bool" where
  "citem_matches (CChar a) x = (x = a)"
| "citem_matches (CRange lo hi) x =
     ((of_char lo :: nat) \<le> of_char x \<and> (of_char x :: nat) \<le> of_char hi)"
| "citem_matches CSpace x =
     (x \<in> set [CHR '' '', CHR 0x09, CHR 0x0A, CHR 0x0B, CHR 0x0C, CHR 0x0D])"
| "citem_matches CDigit x = ((48::nat) \<le> of_char x \<and> (of_char x :: nat) \<le> 57)"

definition in_class :: "bool \<Rightarrow> citem list \<Rightarrow> char \<Rightarrow> bool" where
  "in_class negated items x = (negated \<noteq> (\<exists>i \<in> set items. citem_matches i x))"

type_synonym captures = "nat \<Rightarrow> string option"

text \<open>
  \<open>rmatch r s c\<close> lists, in backtracking order, every way \<open>r\<close> matches a prefix of \<open>s\<close>:
  the rest of the input and the captures. A repetition does not iterate on an empty match.
\<close>

function rmatch :: "regex \<Rightarrow> string \<Rightarrow> captures \<Rightarrow> (string \<times> captures) list" where
  "rmatch Eps s c = [(s, c)]"
| "rmatch (Lit a) s c = (case s of [] \<Rightarrow> [] | x # xs \<Rightarrow> if x = a then [(xs, c)] else [])"
| "rmatch (Cls negated items) s c =
     (case s of [] \<Rightarrow> [] | x # xs \<Rightarrow> if in_class negated items x then [(xs, c)] else [])"
| "rmatch (Seq r1 r2) s c = concat (map (\<lambda>p. rmatch r2 (fst p) (snd p)) (rmatch r1 s c))"
| "rmatch (Alt r1 r2) s c = rmatch r1 s c @ rmatch r2 s c"
| "rmatch (Grp n r) s c =
     map (\<lambda>p. (fst p, (snd p)(n \<mapsto> take (length s - length (fst p)) s))) (rmatch r s c)"
| "rmatch (Star greedy r) s c =
     (let more = concat (map (\<lambda>p. if length (fst p) < length s
                                   then rmatch (Star greedy r) (fst p) (snd p) else [])
                             (rmatch r s c))
      in if greedy then more @ [(s, c)] else (s, c) # more)"
  by pat_completeness auto
termination
  by (relation "measures [\<lambda>(r, s, c). size r, \<lambda>(r, s, c). length s]") auto

declare rmatch.simps(7) [simp del]

text \<open>The result of a successful \<^verbatim>\<open>std::regex_search\<close>: \<^verbatim>\<open>match[0]\<close>, the groups, the suffix.\<close>

record smatch =
  m_whole :: string
  m_groups :: captures
  m_suffix :: string

definition mk_match :: "string \<Rightarrow> string \<times> captures \<Rightarrow> smatch" where
  "mk_match s p = \<lparr>m_whole = take (length s - length (fst p)) s,
                     m_groups = snd p, m_suffix = fst p\<rparr>"

text \<open>The leftmost start position with a match wins; there, the first alternative.\<close>

fun regex_search :: "string \<Rightarrow> regex \<Rightarrow> smatch option" where
  "regex_search [] r =
     (case rmatch r [] Map.empty of p # _ \<Rightarrow> Some (mk_match [] p) | [] \<Rightarrow> None)"
| "regex_search (x # xs) r =
     (case rmatch r (x # xs) Map.empty of
        p # _ \<Rightarrow> Some (mk_match (x # xs) p)
      | [] \<Rightarrow> regex_search xs r)"

text \<open>\<^verbatim>\<open>match[i].str()\<close>: the empty string for a group that did not take part.\<close>

definition sub_str :: "smatch \<Rightarrow> nat \<Rightarrow> string" where
  "sub_str m i = (if i = 0 then m_whole m else case m_groups m i of None \<Rightarrow> [] | Some w \<Rightarrow> w)"

definition sub_matched :: "smatch \<Rightarrow> nat \<Rightarrow> bool" where
  "sub_matched m i = (i = 0 \<or> m_groups m i \<noteq> None)"

fun lit_str :: "string \<Rightarrow> regex" where
  "lit_str [] = Eps"
| "lit_str (a # w) = Seq (Lit a) (lit_str w)"

fun alts :: "regex list \<Rightarrow> regex" where
  "alts [] = Eps"
| "alts [r] = r"
| "alts (r # rs) = Alt r (alts rs)"

subsection \<open>Iterating over matches\<close>

text \<open>A match never ends before its start: the facts the iterator's termination needs.\<close>

lemma rmatch_length:
  "p \<in> set (rmatch r s c) \<Longrightarrow> length (fst p) \<le> length s"
proof (induction r s c arbitrary: p rule: rmatch.induct)
  case (1 s c) then show ?case by simp
next
  case (2 a s c) then show ?case by (auto split: list.splits if_splits)
next
  case (3 negated items s c) then show ?case by (auto split: list.splits if_splits)
next
  case (4 r1 r2 s c)
  from 4(3) obtain q where q: "q \<in> set (rmatch r1 s c)" and p: "p \<in> set (rmatch r2 (fst q) (snd q))"
    by auto
  from 4(1)[OF q] 4(2)[OF q p] show ?case by simp
next
  case (5 r1 r2 s c)
  from 5(3) have "p \<in> set (rmatch r1 s c) \<or> p \<in> set (rmatch r2 s c)" by simp
  then show ?case using 5(1) 5(2) by blast
next
  case (6 n r s c)
  from 6(2) obtain q where "q \<in> set (rmatch r s c)" and "fst p = fst q" by auto
  then show ?case using 6(1) by simp
next
  case (7 greedy r s c)
  show ?case
  proof (cases "p = (s, c)")
    case True then show ?thesis by simp
  next
    case False
    have "set (rmatch (Star greedy r) s c) = insert (s, c)
        (\<Union>q \<in> set (rmatch r s c). if length (fst q) < length s
            then set (rmatch (Star greedy r) (fst q) (snd q)) else {})"
      by (subst rmatch.simps(7)) (auto simp: Let_def)
    with 7(3) False obtain q where q: "q \<in> set (rmatch r s c)"
      and pq: "p \<in> (if length (fst q) < length s
            then set (rmatch (Star greedy r) (fst q) (snd q)) else {})"
      by blast
    from pq have lt: "length (fst q) < length s"
      and p: "p \<in> set (rmatch (Star greedy r) (fst q) (snd q))"
      by (auto split: if_splits)
    from 7(2)[OF q lt p] lt show ?thesis by simp
  qed
qed

lemma regex_search_length:
  "regex_search s r = Some m \<Longrightarrow> length (m_suffix m) \<le> length s"
proof (induction s)
  case Nil
  show ?case
  proof (cases "rmatch r [] Map.empty")
    case Nil
    with Nil.prems show ?thesis by simp
  next
    case (Cons p ps)
    then have "p \<in> set (rmatch r [] Map.empty)" by simp
    from rmatch_length[OF this] Cons Nil.prems show ?thesis
      by (auto simp: mk_match_def)
  qed
next
  case (Cons x xs)
  show ?case
  proof (cases "rmatch r (x # xs) Map.empty")
    case Nil
    with Cons show ?thesis by simp
  next
    case (Cons p ps)
    then have "p \<in> set (rmatch r (x # xs) Map.empty)" by simp
    from rmatch_length[OF this] Cons Cons.prems show ?thesis
      by (auto simp: mk_match_def)
  qed
qed

lemma regex_search_whole:
  "regex_search s r = Some m \<Longrightarrow> m_whole m \<noteq> [] \<Longrightarrow> length (m_suffix m) < length s"
proof (induction s)
  case Nil
  then show ?case by (auto simp: mk_match_def split: list.splits)
next
  case (Cons x xs)
  show ?case
  proof (cases "rmatch r (x # xs) Map.empty")
    case Nil
    with Cons show ?thesis by simp
  next
    case (Cons p ps)
    with Cons.prems show ?thesis
      by (auto simp: mk_match_def)
  qed
qed

text \<open>
  A search with \<^verbatim>\<open>match_not_null | match_continuous\<close>: the first alternative at the
  start of the text that consumes at least one character.
\<close>

definition regex_match_not_null :: "string \<Rightarrow> regex \<Rightarrow> smatch option" where
  "regex_match_not_null s r =
     (case filter (\<lambda>p. length (fst p) < length s) (rmatch r s Map.empty) of
        p # _ \<Rightarrow> Some (mk_match s p)
      | [] \<Rightarrow> None)"

lemma regex_match_not_null_length:
  "regex_match_not_null s r = Some m \<Longrightarrow> length (m_suffix m) < length s"
proof -
  assume a: "regex_match_not_null s r = Some m"
  then obtain p ps where f: "filter (\<lambda>p. length (fst p) < length s) (rmatch r s Map.empty) = p # ps"
    and m: "m = mk_match s p"
    by (auto simp: regex_match_not_null_def split: list.splits)
  from f have "p \<in> set (filter (\<lambda>p. length (fst p) < length s) (rmatch r s Map.empty))"
    by simp
  then have "length (fst p) < length s" by simp
  with m show ?thesis by (simp add: mk_match_def)
qed

text \<open>
  The matches a \<^verbatim>\<open>std::sregex_iterator\<close> visits from the start of the text. After an
  empty match that is not at the end, the iterator looks for a non-empty match at the
  same place, and otherwise searches again one character further.
\<close>

function sregex_iterator :: "regex \<Rightarrow> bool \<Rightarrow> string \<Rightarrow> smatch list" where
  "sregex_iterator r after_null s =
     (case (if after_null then regex_match_not_null s r else regex_search s r) of
        Some m \<Rightarrow>
          m # (if m_whole m = []
               then (if m_suffix m = [] then [] else sregex_iterator r True (m_suffix m))
               else sregex_iterator r False (m_suffix m))
      | None \<Rightarrow>
          (if after_null
           then (case s of [] \<Rightarrow> [] | _ # xs \<Rightarrow> sregex_iterator r False xs)
           else []))"
  by pat_completeness auto
termination
  by (relation "inv_image (less_than <*lex*> less_than)
         (\<lambda>(r, b, s). (length s, if b then 0 else (1::nat)))")
     (auto dest: regex_match_not_null_length regex_search_length regex_search_whole
           split: if_splits)

declare sregex_iterator.simps [simp del]

subsection \<open>Job status\<close>

datatype JobStatus = UNKNOWN | COMPLETED | ERROR | RUNNING | INTERRUPTED

definition normal_marker :: string where
  "normal_marker = ''Normal termination of Gaussian''"

definition error_markers :: "string list" where
  "error_markers = [''Error termination'', ''Fatal Error'', ''Erroneous write'',
     ''File lengths'', ''Error in internal coordinate system'']"

definition pcm_markers :: "string list" where
  "pcm_markers = [''Convergence failure -- run terminated'',
     ''PCM cycles did not converge'', ''PCM optimization failed'']"

definition NORMAL_TERMINATION :: regex where
  "NORMAL_TERMINATION = lit_str normal_marker"

definition ERROR_PATTERN :: regex where
  "ERROR_PATTERN = alts (map lit_str error_markers)"

definition PCM_ERROR :: regex where
  "PCM_ERROR = alts (map lit_str pcm_markers)"

definition check_job_status :: "filesystem \<Rightarrow> string \<Rightarrow> JobStatus" where
  "check_job_status fs filepath =
     (case parse_output_file fs filepath of
        Inl e \<Rightarrow> UNKNOWN
      | Inr content \<Rightarrow>
          if regex_search content NORMAL_TERMINATION \<noteq> None then COMPLETED
          else if regex_search content ERROR_PATTERN \<noteq> None then ERROR
          else if regex_search content PCM_ERROR \<noteq> None then ERROR
          else INTERRUPTED)"

subsection \<open>Floating-point values\<close>

text \<open>
  The program only compares its \<^verbatim>\<open>double\<close> values with \<^verbatim>\<open>0.0\<close> and \<^verbatim>\<open>-10000.0\<close> and
  tests them with \<^verbatim>\<open>std::isnan\<close> and \<^verbatim>\<open>std::isinf\<close>. A finite double is the real
  number it denotes, so that the comparisons are those of IEEE 754; a comparison with
  NaN is false.
\<close>

datatype double = Finite real | PosInf | NegInf | NaN

fun dless :: "double \<Rightarrow> double \<Rightarrow> bool" where
  "dless NaN b = False"
| "dless a NaN = False"
| "dless (Finite x) (Finite y) = (x < y)"
| "dless (Finite x) PosInf = True"
| "dless (Finite x) NegInf = False"
| "dless PosInf b = False"
| "dless NegInf (Finite y) = True"
| "dless NegInf PosInf = True"
| "dless NegInf NegInf = False"

definition dgreater :: "double \<Rightarrow> double \<Rightarrow> bool" where
  "dgreater a b = dless b a"

fun isnan :: "double \<Rightarrow> bool" where
  "isnan NaN = True"
| "isnan a = False"

fun isinf :: "double \<Rightarrow> bool" where
  "isinf PosInf = True"
| "isinf NegInf = True"
| "isinf a = False"

text \<open>
  \<^verbatim>\<open>std::stod\<close> belongs to the C++ library: the functions below take it as a parameter,
  a function from the text to the value read or to the exception thrown.
\<close>

type_synonym stod_fn = "string \<Rightarrow> exn + double"

subsection \<open>Energy components and their validation\<close>

record EnergyComponents =
  electronic_energy :: double
  zero_point_energy :: double
  thermal_correction :: double
  enthalpy_correction :: double
  gibbs_correction :: double
  entropy :: double
  nuclear_repulsion :: double
  frequencies :: "double list"
  has_imaginary_freq :: bool
  dispersion_correction :: "double option"
  solvation_energy :: "double option"
  counterpoise_correction :: "double option"

definition default_components :: EnergyComponents where
  "default_components =
     \<lparr>electronic_energy = Finite 0, zero_point_energy = Finite 0,
      thermal_correction = Finite 0, enthalpy_correction = Finite 0,
      gibbs_correction = Finite 0, entropy = Finite 0, nuclear_repulsion = Finite 0,
      frequencies = [], has_imaginary_freq = False,
      dispersion_correction = None, solvation_energy = None,
      counterpoise_correction = None\<rparr>"

definition validate_results :: "EnergyComponents \<Rightarrow> bool" where
  "validate_results energies =
     (if dgreater (electronic_energy energies) (Finite 0)
         \<or> dless (electronic_energy energies) (Finite (- 10000)) then False
      else if dless (zero_point_energy energies) (Finite 0) then False
      else if isnan (electronic_energy energies) \<or> isinf (electronic_energy energies)
        then False
      else True)"

subsection \<open>The patterns of the Gaussian backend\<close>

definition rplus :: "regex \<Rightarrow> regex" where
  "rplus r = Seq r (Star True r)"

definition ropt :: "regex \<Rightarrow> regex" where
  "ropt r = Alt r Eps"

fun seqs :: "regex list \<Rightarrow> regex" where
  "seqs [] = Eps"
| "seqs [r] = r"
| "seqs (r # rs) = Seq r (seqs rs)"

text \<open>\<^verbatim>\<open>\s\<close>, \<^verbatim>\<open>\d\<close> and the bracket expression \<^verbatim>\<open>[-\d.]\<close>.\<close>

definition ws :: regex where
  "ws = Cls False [CSpace]"

definition digit :: regex where
  "digit = Cls False [CDigit]"

definition numchar :: regex where
  "numchar = Cls False [CChar CHR ''-'', CDigit, CChar CHR ''.'']"

text \<open>\<^verbatim>\<open>SCF Done:\s+E\([^)]+\)\s*=\s*([-\d.]+)\<close>\<close>

definition SCF_ENERGY :: regex where
  "SCF_ENERGY = seqs [lit_str ''SCF Done:'', rplus ws, lit_str ''E('',
     rplus (Cls True [CChar CHR '')'']), Lit CHR '')'', Star True ws, Lit CHR ''='',
     Star True ws, Grp 1 (rplus numchar)]"

text \<open>\<^verbatim>\<open>Zero-point correction=\s*([-\d.]+)\<close>\<close>

definition ZPE :: regex where
  "ZPE = seqs [lit_str ''Zero-point correction='', Star True ws, Grp 1 (rplus numchar)]"

text \<open>\<^verbatim>\<open>Thermal correction to Energy=\s*([-\d.]+)\<close>\<close>

definition THERMAL_CORRECTION :: regex where
  "THERMAL_CORRECTION =
     seqs [lit_str ''Thermal correction to Energy='', Star True ws, Grp 1 (rplus numchar)]"

text \<open>\<^verbatim>\<open>Frequencies --\s*([-\d.]+)\s*([-\d.]+)?\s*([-\d.]+)?\<close>\<close>

definition FREQUENCIES :: regex where
  "FREQUENCIES = seqs [lit_str ''Frequencies --'', Star True ws, Grp 1 (rplus numchar),
     Star True ws, ropt (Grp 2 (rplus numchar)), Star True ws, ropt (Grp 3 (rplus numchar))]"

text \<open>\<^verbatim>\<open>match.size()\<close> is one more than the number of capture groups of the pattern.\<close>

fun mark_count :: "regex \<Rightarrow> nat" where
  "mark_count (Seq r1 r2) = mark_count r1 + mark_count r2"
| "mark_count (Alt r1 r2) = mark_count r1 + mark_count r2"
| "mark_count (Star greedy r) = mark_count r"
| "mark_count (Grp n r) = Suc (mark_count r)"
| "mark_count r = 0"

subsection \<open>Value extraction\<close>

definition extract_energy_value :: "stod_fn \<Rightarrow> string \<Rightarrow> regex \<Rightarrow> double \<Rightarrow> double" where
  "extract_energy_value stod content pattern default_value =
     (case regex_search content pattern of
        Some m \<Rightarrow> (case stod (sub_str m 1) of
                     Inr v \<Rightarrow> v
                   | Inl e \<Rightarrow> default_value)
      | None \<Rightarrow> default_value)"

subsection \<open>Energy extraction\<close>

text \<open>
  The inner loop of \<^verbatim>\<open>extract_energies\<close> over the groups \<^verbatim>\<open>1 .. match.size() - 1\<close> of one
  match: a group that took part is read by \<^verbatim>\<open>std::stod\<close>, whose exception leaves the loop.
\<close>

fun add_frequency_groups ::
  "stod_fn \<Rightarrow> smatch \<Rightarrow> nat list \<Rightarrow> EnergyComponents \<Rightarrow> exn + EnergyComponents" where
  "add_frequency_groups stod m [] components = Inr components"
| "add_frequency_groups stod m (i # is) components =
     (if sub_matched m i then
        (case stod (sub_str m i) of
           Inl e \<Rightarrow> Inl e
         | Inr freq \<Rightarrow>
             add_frequency_groups stod m is
               (components\<lparr>frequencies := frequencies components @ [freq],
                           has_imaginary_freq :=
                             (if dless freq (Finite 0) then True
                              else has_imaginary_freq components)\<rparr>))
      else add_frequency_groups stod m is components)"

text \<open>The outer loop over the matches of \<^verbatim>\<open>FREQUENCIES\<close>.\<close>

fun add_frequency_matches ::
  "stod_fn \<Rightarrow> smatch list \<Rightarrow> EnergyComponents \<Rightarrow> exn + EnergyComponents" where
  "add_frequency_matches stod [] components = Inr components"
| "add_frequency_matches stod (m # ms) components =
     (case add_frequency_groups stod m [1 ..< Suc (mark_count FREQUENCIES)] components of
        Inl e \<Rightarrow> Inl e
      | Inr components' \<Rightarrow> add_frequency_matches stod ms components')"

text \<open>The statements of the \<^verbatim>\<open>try\<close> block between reading the file and validation.\<close>

definition extract_components :: "stod_fn \<Rightarrow> string \<Rightarrow> exn + EnergyComponents" where
  "extract_components stod content =
     add_frequency_matches stod (sregex_iterator FREQUENCIES False content)
       (default_components
          \<lparr>electronic_energy := extract_energy_value stod content SCF_ENERGY (Finite 0),
           zero_point_energy := extract_energy_value stod content ZPE (Finite 0),
           thermal_correction :=
             extract_energy_value stod content THERMAL_CORRECTION (Finite 0)\<rparr>)"

definition validation_message :: string where
  "validation_message = ''Extracted energy components failed validation''"

text \<open>The \<^verbatim>\<open>try\<close> block of \<^verbatim>\<open>extract_energies\<close>.\<close>

definition extract_energies_try ::
  "filesystem \<Rightarrow> stod_fn \<Rightarrow> string \<Rightarrow> exn + EnergyComponents" where
  "extract_energies_try fs stod filepath =
     (case parse_output_file fs filepath of
        Inl e \<Rightarrow> Inl e
      | Inr content \<Rightarrow>
          (case extract_components stod content of
             Inl e \<Rightarrow> Inl e
           | Inr components \<Rightarrow>
               if \<not> validate_results components
               then Inl (RuntimeError validation_message)
               else Inr components))"

text \<open>The handler wraps every exception of the block into a \<^verbatim>\<open>std::runtime_error\<close>.\<close>

definition extract_energies ::
  "filesystem \<Rightarrow> stod_fn \<Rightarrow> string \<Rightarrow> exn + EnergyComponents" where
  "extract_energies fs stod filepath =
     (case extract_energies_try fs stod filepath of
        Inl e \<Rightarrow> Inl (RuntimeError
                   (''Failed to extract energies from '' @ filepath @ '': '' @ what e))
      | Inr components \<Rightarrow> Inr components)"

definition calculate_high_level_energy ::
  "filesystem \<Rightarrow> stod_fn \<Rightarrow> string \<Rightarrow> string \<Rightarrow> exn + EnergyComponents" where
  "calculate_high_level_energy fs stod low_level_path high_level_path =
     (case extract_energies fs stod low_level_path of
        Inl e \<Rightarrow> Inl e
      | Inr low_level \<Rightarrow>
          (case extract_energies fs stod high_level_path of
             Inl e \<Rightarrow> Inl e
           | Inr high_level \<Rightarrow>
               Inr (low_level\<lparr>electronic_energy := electronic_energy high_level\<rparr>)))"

subsection \<open>Numerals and the contract of the library's reader\<close>

text \<open>
  The patterns of the program capture texts of signs, digits and points. On such a text
  \<^verbatim>\<open>strtod\<close>, which \<^verbatim>\<open>std::stod\<close> calls, converts the longest initial part that is a
  numeral: an optional sign, then digits with at most one point among them and at least
  one digit. \<^verbatim>\<open>std::stod\<close> is called without its position argument, so what follows that
  part is ignored; with no such part it throws \<^verbatim>\<open>std::invalid_argument\<close>.
\<close>

definition is_digit :: "char \<Rightarrow> bool" where
  "is_digit x = ((48::nat) \<le> of_char x \<and> (of_char x :: nat) \<le> 57)"

definition digits_value :: "string \<Rightarrow> nat" where
  "digits_value w = foldl (\<lambda>a d. 10 * a + (of_char d - 48)) 0 w"

definition is_numchar :: "char \<Rightarrow> bool" where
  "is_numchar x = (x = CHR ''-'' \<or> is_digit x \<or> x = CHR ''.'')"

text \<open>The sign, the digits before the point, and the point with the digits after it.\<close>

definition sign_part :: "string \<Rightarrow> string" where
  "sign_part w =
     (case w of [] \<Rightarrow> [] | x # _ \<Rightarrow> if x = CHR ''-'' \<or> x = CHR ''+'' then [x] else [])"

definition int_part :: "string \<Rightarrow> string" where
  "int_part w = takeWhile is_digit (drop (length (sign_part w)) w)"

definition point_frac :: "string \<Rightarrow> string" where
  "point_frac w =
     (case dropWhile is_digit (drop (length (sign_part w)) w) of
        [] \<Rightarrow> []
      | x # xs \<Rightarrow> if x = CHR ''.'' then x # takeWhile is_digit xs else [])"

text \<open>The initial numeral: empty when there is no digit.\<close>

definition numeral_prefix :: "string \<Rightarrow> string" where
  "numeral_prefix w =
     (if int_part w = [] \<and> length (point_frac w) \<le> 1 then []
      else sign_part w @ int_part w @ point_frac w)"

text \<open>A text parses as a number when all of it is a numeral.\<close>

definition is_numeral :: "string \<Rightarrow> bool" where
  "is_numeral w = (w \<noteq> [] \<and> numeral_prefix w = w)"

text \<open>
  The contract of \<^verbatim>\<open>std::stod\<close> on these texts: the result, a value or an exception, is
  that of the initial numeral, and a text without one throws \<^verbatim>\<open>std::invalid_argument\<close>.
\<close>

definition stod_contract :: "stod_fn \<Rightarrow> bool" where
  "stod_contract stod =
     (\<forall>w. list_all is_numchar w \<longrightarrow>
          stod w = stod (numeral_prefix w)
          \<and> (numeral_prefix w = [] \<longrightarrow> (\<exists>msg. stod w = Inl (InvalidArgument msg))))"

text \<open>
  An instance of the \<^verbatim>\<open>std::stod\<close> parameter for concrete inputs: the initial numeral is
  read as its exact decimal value. The library also rounds to the nearest double and
  throws \<^verbatim>\<open>std::out_of_range\<close>; no theorem below depends on the instance, except where
  it is named.
\<close>

definition stod_decimal :: stod_fn where
  "stod_decimal w =
     (if numeral_prefix w = [] then Inl (InvalidArgument ''stod'')
      else (let frac = drop 1 (point_frac w);
                v = real (digits_value (int_part w))
                    + real (digits_value frac) / 10 ^ length frac
            in Inr (Finite (if sign_part w = ''-'' then - v else v))))"

subsection \<open>Calculation metadata\<close>

record CalculationMetadata =
  program_version :: string
  "method" :: string
  basis_set :: string
  "keywords" :: "string list"
  solvent :: "string option"
  temperature :: double
  pressure :: double
  file_path :: string
  status :: JobStatus

definition default_metadata :: CalculationMetadata where
  "default_metadata =
     \<lparr>program_version = [], method = [], basis_set = [], keywords = [], solvent = None,
      temperature = Finite 298.15, pressure = Finite 1, file_path = [],
      status = UNKNOWN\<rparr>"

text \<open>\<^verbatim>\<open>Gaussian\s+(\d+)\s+Revision\s+([A-Z]\.\d+)\<close>\<close>

definition version_regex :: regex where
  "version_regex = seqs [lit_str ''Gaussian'', rplus ws, Grp 1 (rplus digit), rplus ws,
     lit_str ''Revision'', rplus ws,
     Grp 2 (seqs [Cls False [CRange CHR ''A'' CHR ''Z''], Lit CHR ''.'', rplus digit])]"

text \<open>\<^verbatim>\<open>#[^\n]*(?:\n[^\n\r]*)*?\<close>\<close>

definition route_regex :: regex where
  "route_regex = seqs [Lit CHR ''#'', Star True (Cls True [CChar CHR 0x0A]),
     Star False (Seq (Lit CHR 0x0A) (Star True (Cls True [CChar CHR 0x0A, CChar CHR 0x0D])))]"

text \<open>\<^verbatim>\<open>(B3LYP|M06|PBE0|CAM-B3LYP|wB97XD|MP2|CCSD|G4)\<close>\<close>

definition method_names :: "string list" where
  "method_names =
     [''B3LYP'', ''M06'', ''PBE0'', ''CAM-B3LYP'', ''wB97XD'', ''MP2'', ''CCSD'', ''G4'']"

definition method_regex :: regex where
  "method_regex = Grp 1 (alts (map lit_str method_names))"

text \<open>
  \<^verbatim>\<open>(6-31G|6-311G|cc-pVDZ|cc-pVTZ|aug-cc-pVDZ|aug-cc-pVTZ|def2-SVP|def2-TZVP)(?:\([^)]*\))?\<close>
\<close>

definition basis_names :: "string list" where
  "basis_names =
     [''6-31G'', ''6-311G'', ''cc-pVDZ'', ''cc-pVTZ'', ''aug-cc-pVDZ'', ''aug-cc-pVTZ'',
      ''def2-SVP'', ''def2-TZVP'']"

definition basis_regex :: regex where
  "basis_regex = Seq
     (Grp 1 (alts (map lit_str basis_names)))
     (ropt (seqs [Lit CHR ''('', Star True (Cls True [CChar CHR '')'']), Lit CHR '')'']))"

definition parse_route_section :: "string \<Rightarrow> (string \<rightharpoonup> string)" where
  "parse_route_section content =
     (case regex_search content route_regex of
        None \<Rightarrow> Map.empty
      | Some route_match \<Rightarrow>
          (let route_section = sub_str route_match 0;
               route_info1 =
                 (case regex_search route_section method_regex of
                    Some method_match \<Rightarrow> [''method'' \<mapsto> sub_str method_match 1]
                  | None \<Rightarrow> Map.empty);
               route_info2 =
                 (case regex_search route_section basis_regex of
                    Some basis_match \<Rightarrow> route_info1(''basis'' \<mapsto> sub_str basis_match 1)
                  | None \<Rightarrow> route_info1)
           in route_info2))"

text \<open>
  Only the read of the file throws inside the \<^verbatim>\<open>try\<close> block of \<^verbatim>\<open>get_metadata\<close>; the
  handler then sets the status and keeps the path. The warning on \<^verbatim>\<open>std::cerr\<close> is not
  modelled.
\<close>

definition get_metadata :: "filesystem \<Rightarrow> string \<Rightarrow> CalculationMetadata" where
  "get_metadata fs filepath =
     (let metadata0 = default_metadata\<lparr>file_path := filepath\<rparr>
      in case parse_output_file fs filepath of
           Inl e \<Rightarrow> metadata0\<lparr>status := ERROR\<rparr>
         | Inr content \<Rightarrow>
             (let metadata1 =
                    (case regex_search content version_regex of
                       Some version_match \<Rightarrow>
                         metadata0\<lparr>program_version :=
                           ''Gaussian '' @ sub_str version_match 1 @ '' ''
                             @ sub_str version_match 2\<rparr>
                     | None \<Rightarrow> metadata0);
                  route_info = parse_route_section content;
                  metadata2 =
                    (case route_info ''method'' of
                       Some v \<Rightarrow> metadata1\<lparr>method := v\<rparr>
                     | None \<Rightarrow> metadata1);
                  metadata3 =
                    (case route_info ''basis'' of
                       Some v \<Rightarrow> metadata2\<lparr>basis_set := v\<rparr>
                     | None \<Rightarrow> metadata2)
              in metadata3\<lparr>status := check_job_status fs filepath\<rparr>))"

subsection \<open>Dispersion correction\<close>

definition get_dispersion_type :: "filesystem \<Rightarrow> string \<Rightarrow> string option" where
  "get_dispersion_type fs filepath =
     (case parse_output_file fs filepath of
        Inl e \<Rightarrow> None
      | Inr content \<Rightarrow>
          if str_find content ''GD3'' \<noteq> None \<or> str_find content ''D3'' \<noteq> None
            then Some ''D3''
          else if str_find content ''GD2'' \<noteq> None \<or> str_find content ''D2'' \<noteq> None
            then Some ''D2''
          else if str_find content ''GD3BJ'' \<noteq> None \<or> str_find content ''D3BJ'' \<noteq> None
            then Some ''D3BJ''
          else None)"

subsection \<open>The backend registry\<close>

text \<open>
  A factory is a \<^verbatim>\<open>std::function\<close> without arguments: it returns an instance or throws,
  as the placeholder factories of \<^verbatim>\<open>register_qm_programs\<close> do. The registry is the
  \<^verbatim>\<open>std::unordered_map\<close> from normalized names to factories; the functions take it and
  return it updated.
\<close>

type_synonym 'p factory = "unit \<Rightarrow> exn + 'p"

type_synonym 'p registry = "string \<rightharpoonup> 'p factory"

text \<open>\<^verbatim>\<open>std::tolower\<close> in the C locale, which the program never changes.\<close>

definition tolower :: "char \<Rightarrow> char" where
  "tolower x = (if (65::nat) \<le> of_char x \<and> (of_char x :: nat) \<le> 90
                then char_of (of_char x + (32::nat)) else x)"

definition normalize_program_name :: "string \<Rightarrow> string" where
  "normalize_program_name name = map tolower name"

definition unsupported_message :: "string \<Rightarrow> string" where
  "unsupported_message program_name =
     ''Unsupported quantum chemistry program: '' @ program_name"

definition create_qm_program :: "'p registry \<Rightarrow> string \<Rightarrow> exn + 'p" where
  "create_qm_program program_registry program_name =
     (case program_registry (normalize_program_name program_name) of
        None \<Rightarrow> Inl (RuntimeError (unsupported_message program_name))
      | Some factory \<Rightarrow> factory ())"

definition is_program_supported :: "'p registry \<Rightarrow> string \<Rightarrow> bool" where
  "is_program_supported program_registry program_name =
     (program_registry (normalize_program_name program_name) \<noteq> None)"

definition register_qm_program :: "string \<Rightarrow> 'p factory \<Rightarrow> 'p registry \<Rightarrow> 'p registry" where
  "register_qm_program name factory program_registry =
     program_registry(normalize_program_name name \<mapsto> factory)"

text \<open>
  Two names are casings of each other when they have the same length and, place by
  place, the same character or the two cases of one ASCII letter.
\<close>

definition is_upper :: "char \<Rightarrow> bool" where
  "is_upper x = ((65::nat) \<le> of_char x \<and> (of_char x :: nat) \<le> 90)"

definition same_letter :: "char \<Rightarrow> char \<Rightarrow> bool" where
  "same_letter a b =
     (a = b \<or> (is_upper a \<and> (of_char b :: nat) = of_char a + 32)
            \<or> (is_upper b \<and> (of_char a :: nat) = of_char b + 32))"

definition same_ignoring_case :: "string \<Rightarrow> string \<Rightarrow> bool" where
  "same_ignoring_case a b = list_all2 same_letter a b"

section \<open>Properties\<close>

subsection \<open>Literal patterns search for substrings\<close>

lemma rmatch_lit_str:
  "rmatch (lit_str w) s c = (if prefix w s then [(drop (length w) s, c)] else [])"
  by (induction w arbitrary: s) (auto split: list.splits)

lemma regex_search_iff:
  "regex_search s r \<noteq> None \<longleftrightarrow> (\<exists>t. suffix t s \<and> rmatch r t Map.empty \<noteq> [])"
proof (induction s)
  case Nil
  show ?case by (auto split: list.splits)
next
  case (Cons x xs)
  show ?case
  proof (cases "rmatch r (x # xs) Map.empty")
    case Nil
    have "regex_search (x # xs) r = regex_search xs r"
      using Nil by simp
    with Cons Nil show ?thesis
      by (auto simp: suffix_Cons)
  next
    case (Cons p ps)
    then have "regex_search (x # xs) r \<noteq> None" by simp
    moreover have "\<exists>t. suffix t (x # xs) \<and> rmatch r t Map.empty \<noteq> []"
      using Cons by (intro exI[of _ "x # xs"]) simp
    ultimately show ?thesis by blast
  qed
qed

lemma contains_iff: "contains s w \<longleftrightarrow> (\<exists>t. suffix t s \<and> prefix w t)"
  unfolding contains_def
proof (induction s)
  case Nil
  show ?case by auto
next
  case (Cons x xs)
  show ?case using Cons by (auto simp: suffix_Cons)
qed

lemma rmatch_alts_lit:
  "ms \<noteq> [] \<Longrightarrow> rmatch (alts (map lit_str ms)) s c \<noteq> [] \<longleftrightarrow> (\<exists>w \<in> set ms. prefix w s)"
proof (induction ms rule: induct_list012)
  case 1 then show ?case by simp
next
  case (2 w) show ?case by (simp add: rmatch_lit_str)
next
  case (3 w v vs)
  then show ?case by (simp add: rmatch_lit_str)
qed

lemma search_lit: "regex_search s (lit_str w) \<noteq> None \<longleftrightarrow> contains s w"
proof -
  have "\<And>t. rmatch (lit_str w) t Map.empty \<noteq> [] \<longleftrightarrow> prefix w t"
    by (simp add: rmatch_lit_str)
  then show ?thesis
    by (simp only: regex_search_iff contains_iff)
qed

lemma search_alts:
  "ms \<noteq> [] \<Longrightarrow> regex_search s (alts (map lit_str ms)) \<noteq> None \<longleftrightarrow> (\<exists>w \<in> set ms. contains s w)"
proof -
  assume ne: "ms \<noteq> []"
  have "regex_search s (alts (map lit_str ms)) \<noteq> None \<longleftrightarrow>
        (\<exists>t. suffix t s \<and> (\<exists>w \<in> set ms. prefix w t))"
    unfolding regex_search_iff using rmatch_alts_lit [OF ne] by simp
  also have "\<dots> \<longleftrightarrow> (\<exists>w \<in> set ms. \<exists>t. suffix t s \<and> prefix w t)"
    by blast
  also have "\<dots> \<longleftrightarrow> (\<exists>w \<in> set ms. contains s w)"
    unfolding contains_iff ..
  finally show ?thesis .
qed

text \<open>
  The three patterns of the classifier are alternations of literal strings, so each
  search is a substring test; the classifier is a cascade of such tests on the bytes
  read.
\<close>

lemma parse_output_file_bytes:
  "parse_output_file fs filepath =
     (case bytes_read (fs filepath) of
        None \<Rightarrow> Inl (RuntimeError (''Could not open file: '' @ filepath))
      | Some content \<Rightarrow> Inr content)"
  by (cases "fs filepath") (simp_all add: parse_output_file_def)

lemma bytes_read_None: "bytes_read f = None \<longleftrightarrow> f = CannotOpen"
  by (cases f) simp_all

lemma check_job_status_markers:
  "check_job_status fs filepath =
     (case bytes_read (fs filepath) of
        None \<Rightarrow> UNKNOWN
      | Some content \<Rightarrow>
          if contains content normal_marker then COMPLETED
          else if \<exists>w \<in> set error_markers. contains content w then ERROR
          else if \<exists>w \<in> set pcm_markers. contains content w then ERROR
          else INTERRUPTED)"
proof (cases "bytes_read (fs filepath)")
  case None
  then show ?thesis by (simp add: check_job_status_def parse_output_file_bytes)
next
  case (Some content)
  have n: "regex_search content NORMAL_TERMINATION \<noteq> None \<longleftrightarrow> contains content normal_marker"
    unfolding NORMAL_TERMINATION_def by (rule search_lit)
  have e: "regex_search content ERROR_PATTERN \<noteq> None \<longleftrightarrow>
           (\<exists>w \<in> set error_markers. contains content w)"
    unfolding ERROR_PATTERN_def by (rule search_alts) (simp add: error_markers_def)
  have p: "regex_search content PCM_ERROR \<noteq> None \<longleftrightarrow>
           (\<exists>w \<in> set pcm_markers. contains content w)"
    unfolding PCM_ERROR_def by (rule search_alts) (simp add: pcm_markers_def)
  show ?thesis
    unfolding check_job_status_def parse_output_file_bytes using Some n e p
    by (simp del: regex_search.simps)
qed

subsection \<open>Job status classification\<close>

text \<open>
  Claim C2. For every text read from a file that contains both the normal-termination
  marker and an error marker (of \<^verbatim>\<open>ERROR_PATTERN\<close> or \<^verbatim>\<open>PCM_ERROR\<close>),
  \<^verbatim>\<open>check_job_status\<close> returns \<^verbatim>\<open>COMPLETED\<close>: the termination check runs first.
\<close>

theorem completed_before_error:
  assumes "bytes_read (fs filepath) = Some content"
    and "contains content normal_marker"
    and "\<exists>w \<in> set (error_markers @ pcm_markers). contains content w"
  shows "check_job_status fs filepath = COMPLETED"
  using assms(1,2) by (simp add: check_job_status_markers)

theorem completed_before_error_witness:
  "contains ''Error termination via Lnk1e. Normal termination of Gaussian 16.'' normal_marker
   \<and> (\<exists>w \<in> set (error_markers @ pcm_markers).
         contains ''Error termination via Lnk1e. Normal termination of Gaussian 16.'' w)
   \<and> check_job_status
         (single_file ''job.log''
            ''Error termination via Lnk1e. Normal termination of Gaussian 16.'')
         ''job.log'' = COMPLETED"
proof -
  let ?t = "''Error termination via Lnk1e. Normal termination of Gaussian 16.''"
  have a: "contains ?t normal_marker"
    by (simp add: contains_def normal_marker_def)
  have b: "\<exists>w \<in> set (error_markers @ pcm_markers). contains ?t w"
    by (simp add: contains_def error_markers_def)
  have c: "bytes_read (single_file ''job.log'' ?t ''job.log'') = Some ?t"
    by (simp add: single_file_def)
  from completed_before_error [of "single_file ''job.log'' ?t" "''job.log''" ?t, OF c a b] a b
  show ?thesis by blast
qed

text \<open>
  Claim C3, as stated: every unreadable input is classified \<^verbatim>\<open>UNKNOWN\<close>, and
  \<^verbatim>\<open>INTERRUPTED\<close> and \<^verbatim>\<open>UNKNOWN\<close> are never confused. It fails on a path that opens
  but cannot be read, such as a directory: no byte is read, no exception is thrown, and
  the empty text is classified \<^verbatim>\<open>INTERRUPTED\<close>.
\<close>

theorem unreadable_interrupted_counterexample:
  "((single_file ''job.log'' ''Entering Link 1'')(''results'' := ReadFails [])) ''results''
     = ReadFails []
   \<and> check_job_status
         ((single_file ''job.log'' ''Entering Link 1'')(''results'' := ReadFails []))
         ''results'' = INTERRUPTED"
  by (simp add: check_job_status_markers contains_def normal_marker_def error_markers_def
        pcm_markers_def)

text \<open>
  Claim C3, amended. A file that cannot be opened is classified \<^verbatim>\<open>UNKNOWN\<close>, and only
  such a file is. When the file opens, the bytes read are classified: a text with no
  termination marker and no error marker gives \<^verbatim>\<open>INTERRUPTED\<close>; so does a zero-length
  file that was read, and so does a path that opens and whose read fails before any byte.
\<close>

theorem interrupted_and_unknown:
  "(fs filepath = CannotOpen \<longrightarrow> check_job_status fs filepath = UNKNOWN)
   \<and> (bytes_read (fs filepath) = Some content \<and> \<not> contains content normal_marker
        \<and> (\<forall>w \<in> set (error_markers @ pcm_markers). \<not> contains content w)
        \<longrightarrow> check_job_status fs filepath = INTERRUPTED)
   \<and> (fs filepath = Readable [] \<longrightarrow> check_job_status fs filepath = INTERRUPTED)
   \<and> (fs filepath = ReadFails [] \<longrightarrow> check_job_status fs filepath = INTERRUPTED)
   \<and> (check_job_status fs filepath = UNKNOWN \<longleftrightarrow> fs filepath = CannotOpen)"
proof -
  have e: "\<not> contains [] normal_marker"
    "\<forall>w \<in> set error_markers. \<not> contains [] w" "\<forall>w \<in> set pcm_markers. \<not> contains [] w"
    by (simp_all add: contains_def normal_marker_def error_markers_def pcm_markers_def)
  show ?thesis
    using e by (cases "fs filepath") (auto simp: check_job_status_markers)
qed

theorem interrupted_and_unknown_witness:
  "check_job_status (single_file ''job.log'' ''Entering Link 1'') ''job.log'' = INTERRUPTED
   \<and> check_job_status (single_file ''job.log'' []) ''job.log'' = INTERRUPTED
   \<and> check_job_status (single_file ''job.log'' []) ''gone.log'' = UNKNOWN
   \<and> check_job_status ((single_file ''job.log'' [])(''results'' := ReadFails []))
         ''results'' = INTERRUPTED"
proof -
  let ?t = "''Entering Link 1''"
  let ?f = "single_file ''job.log'' ?t"
  let ?g = "single_file ''job.log'' []"
  let ?h = "(single_file ''job.log'' [])(''results'' := ReadFails [])"
  have "bytes_read (?f ''job.log'') = Some ?t \<and> \<not> contains ?t normal_marker
        \<and> (\<forall>w \<in> set (error_markers @ pcm_markers). \<not> contains ?t w)"
    by (simp add: single_file_def contains_def normal_marker_def error_markers_def
          pcm_markers_def)
  with interrupted_and_unknown [of ?f "''job.log''" ?t]
  have 1: "check_job_status ?f ''job.log'' = INTERRUPTED" by blast
  have "?g ''job.log'' = Readable []" by (simp add: single_file_def)
  with interrupted_and_unknown [of ?g "''job.log''" "[]"]
  have 2: "check_job_status ?g ''job.log'' = INTERRUPTED" by blast
  have "?g ''gone.log'' = CannotOpen" by (simp add: single_file_def)
  with interrupted_and_unknown [of ?g "''gone.log''" "[]"]
  have 3: "check_job_status ?g ''gone.log'' = UNKNOWN" by blast
  have "?h ''results'' = ReadFails []" by simp
  with interrupted_and_unknown [of ?h "''results''" "[]"]
  have 4: "check_job_status ?h ''results'' = INTERRUPTED" by blast
  from 1 2 3 4 show ?thesis by blast
qed

text \<open>
  Claim C10. \<^verbatim>\<open>check_job_status\<close> never returns \<^verbatim>\<open>RUNNING\<close>, for readable and unreadable
  files alike: its result is one of \<^verbatim>\<open>COMPLETED\<close>, \<^verbatim>\<open>ERROR\<close>, \<^verbatim>\<open>INTERRUPTED\<close> and
  \<^verbatim>\<open>UNKNOWN\<close>.
\<close>

theorem check_job_status_never_running:
  "check_job_status fs filepath \<noteq> RUNNING
   \<and> check_job_status fs filepath \<in> {COMPLETED, ERROR, INTERRUPTED, UNKNOWN}"
  by (simp add: check_job_status_markers split: option.splits)

theorem check_job_status_never_running_witness:
  "check_job_status (single_file ''job.log'' ''Link1:  Proceeding to internal job step'')
     ''job.log'' \<noteq> RUNNING
   \<and> check_job_status (single_file ''job.log'' []) ''gone.log'' \<noteq> RUNNING"
  using check_job_status_never_running
          [of "single_file ''job.log'' ''Link1:  Proceeding to internal job step''"
              "''job.log''"]
        check_job_status_never_running [of "single_file ''job.log'' []" "''gone.log''"]
  by blast

subsection \<open>Where a match lies and what it captures\<close>

lemma rmatch_Star_set:
  "set (rmatch (Star greedy r) s c) = insert (s, c)
     (\<Union>q \<in> set (rmatch r s c). if length (fst q) < length s
         then set (rmatch (Star greedy r) (fst q) (snd q)) else {})"
  by (subst rmatch.simps(7)) (auto simp: Let_def)

lemma rmatch_suffix:
  "p \<in> set (rmatch r s c) \<Longrightarrow> suffix (fst p) s"
proof (induction r s c arbitrary: p rule: rmatch.induct)
  case (1 s c) then show ?case by simp
next
  case (2 a s c) then show ?case by (auto simp: suffix_Cons split: list.splits if_splits)
next
  case (3 negated items s c)
  then show ?case by (auto simp: suffix_Cons split: list.splits if_splits)
next
  case (4 r1 r2 s c)
  from 4(3) obtain q where q: "q \<in> set (rmatch r1 s c)"
    and p: "p \<in> set (rmatch r2 (fst q) (snd q))"
    by auto
  from 4(1)[OF q] 4(2)[OF q p] show ?case by (rule suffix_order.trans[rotated])
next
  case (5 r1 r2 s c)
  from 5(3) have "p \<in> set (rmatch r1 s c) \<or> p \<in> set (rmatch r2 s c)" by simp
  then show ?case using 5(1) 5(2) by blast
next
  case (6 n r s c)
  from 6(2) obtain q where "q \<in> set (rmatch r s c)" and "fst p = fst q" by auto
  then show ?case using 6(1) by simp
next
  case (7 greedy r s c)
  show ?case
  proof (cases "p = (s, c)")
    case True then show ?thesis by simp
  next
    case False
    with 7(3) rmatch_Star_set [of greedy r s c]
    obtain q where q: "q \<in> set (rmatch r s c)"
      and pq: "p \<in> (if length (fst q) < length s
            then set (rmatch (Star greedy r) (fst q) (snd q)) else {})"
      by blast
    from pq have lt: "length (fst q) < length s"
      and p: "p \<in> set (rmatch (Star greedy r) (fst q) (snd q))"
      by (auto split: if_splits)
    from 7(2)[OF q lt p] 7(1)[OF q] show ?thesis by (rule suffix_order.trans)
  qed
qed

text \<open>A successful search is the first alternative at some position of the text.\<close>

lemma regex_search_Some:
  "regex_search s r = Some m \<Longrightarrow>
   \<exists>t p ps. suffix t s \<and> rmatch r t Map.empty = p # ps \<and> m = mk_match t p"
proof (induction s)
  case Nil
  then show ?case by (cases "rmatch r [] Map.empty") auto
next
  case (Cons x xs)
  show ?case
  proof (cases "rmatch r (x # xs) Map.empty")
    case Nil
    with Cons.prems have "regex_search xs r = Some m" by simp
    from Cons.IH [OF this] show ?thesis by (auto simp: suffix_Cons)
  next
    case (Cons p ps)
    with Cons.prems have "m = mk_match (x # xs) p" by simp
    with Cons show ?thesis by blast
  qed
qed

lemma contains_sublist: "contains s w \<longleftrightarrow> sublist w s"
  unfolding contains_iff sublist_def suffix_def prefix_def by auto

lemma regex_search_whole_sublist:
  assumes "regex_search s r = Some m"
  shows "sublist (m_whole m) s"
proof -
  from regex_search_Some [OF assms] obtain t p ps where t: "suffix t s"
    and r: "rmatch r t Map.empty = p # ps" and m: "m = mk_match t p"
    by blast
  from r have "p \<in> set (rmatch r t Map.empty)" by simp
  then have "suffix (fst p) t" by (rule rmatch_suffix)
  then obtain u where u: "t = u @ fst p" by (auto simp: suffix_def)
  with m have "m_whole m = u" by (simp add: mk_match_def)
  with u t show ?thesis by (auto simp: sublist_def suffix_def)
qed

lemma contains_in_match:
  "regex_search s r = Some m \<Longrightarrow> contains (m_whole m) w \<Longrightarrow> contains s w"
  unfolding contains_sublist
  using regex_search_whole_sublist sublist_order.order.trans by blast

lemma rmatch_no_groups:
  "mark_count r = 0 \<Longrightarrow> p \<in> set (rmatch r s c) \<Longrightarrow> snd p = c"
proof (induction r s c arbitrary: p rule: rmatch.induct)
  case (1 s c) then show ?case by simp
next
  case (2 a s c) then show ?case by (auto split: list.splits if_splits)
next
  case (3 negated items s c) then show ?case by (auto split: list.splits if_splits)
next
  case (4 r1 r2 s c)
  from 4(4) obtain q where q: "q \<in> set (rmatch r1 s c)"
    and p: "p \<in> set (rmatch r2 (fst q) (snd q))"
    by auto
  from 4(3) have z: "mark_count r1 = 0" "mark_count r2 = 0" by simp_all
  from 4(1)[OF z(1) q] 4(2)[OF q z(2) p] show ?case by simp
next
  case (5 r1 r2 s c)
  from 5(4) have "p \<in> set (rmatch r1 s c) \<or> p \<in> set (rmatch r2 s c)" by simp
  moreover from 5(3) have "mark_count r1 = 0" "mark_count r2 = 0" by simp_all
  ultimately show ?case using 5(1) 5(2) by blast
next
  case (6 n r s c) then show ?case by simp
next
  case (7 greedy r s c)
  from 7(3) have z: "mark_count r = 0" by simp
  show ?case
  proof (cases "p = (s, c)")
    case True then show ?thesis by simp
  next
    case False
    with 7(4) rmatch_Star_set [of greedy r s c]
    obtain q where q: "q \<in> set (rmatch r s c)"
      and pq: "p \<in> (if length (fst q) < length s
            then set (rmatch (Star greedy r) (fst q) (snd q)) else {})"
      by blast
    from pq have lt: "length (fst q) < length s"
      and p: "p \<in> set (rmatch (Star greedy r) (fst q) (snd q))"
      by (auto split: if_splits)
    from 7(2)[OF q lt 7(3) p] 7(1)[OF z q] show ?thesis by simp
  qed
qed

lemma rmatch_alts_lit_set:
  "ms \<noteq> [] \<Longrightarrow> p \<in> set (rmatch (alts (map lit_str ms)) s c) \<Longrightarrow>
   \<exists>w \<in> set ms. prefix w s \<and> p = (drop (length w) s, c)"
proof (induction ms rule: induct_list012)
  case 1 then show ?case by simp
next
  case (2 w) then show ?case by (simp add: rmatch_lit_str split: if_splits)
next
  case (3 w v vs)
  then show ?case by (auto simp: rmatch_lit_str split: if_splits)
qed

text \<open>Group 1 of an alternation of literal names holds the name that matched.\<close>

lemma rmatch_name_group:
  assumes "ms \<noteq> []" and "p \<in> set (rmatch (Grp 1 (alts (map lit_str ms))) s c)"
  shows "\<exists>w \<in> set ms. snd p 1 = Some w"
proof -
  from assms(2) obtain q where q: "q \<in> set (rmatch (alts (map lit_str ms)) s c)"
    and p: "snd p 1 = Some (take (length s - length (fst q)) s)"
    by auto
  from rmatch_alts_lit_set [OF assms(1) q] obtain w where w: "w \<in> set ms" "prefix w s"
    and qq: "q = (drop (length w) s, c)"
    by blast
  from w(2) have "take (length s - length (drop (length w) s)) s = w"
    by (auto simp: prefix_def)
  with p qq w(1) show ?thesis by auto
qed

subsection \<open>Metadata\<close>

lemma rmatch_Seq_iff:
  "p \<in> set (rmatch (Seq r1 r2) s c) \<longleftrightarrow>
     (\<exists>q \<in> set (rmatch r1 s c). p \<in> set (rmatch r2 (fst q) (snd q)))"
  by auto

lemma rmatch_Seq_nonempty:
  "rmatch (Seq r1 r2) s c \<noteq> [] \<Longrightarrow> rmatch r1 s c \<noteq> []"
  by auto

lemma rmatch_Grp_nonempty:
  "rmatch (Grp n r) s c \<noteq> [] \<longleftrightarrow> rmatch r s c \<noteq> []"
  by simp

lemma rmatch_name_group_Seq:
  assumes "ms \<noteq> []" and "mark_count r2 = 0"
    and "p \<in> set (rmatch (Seq (Grp 1 (alts (map lit_str ms))) r2) s c)"
  shows "\<exists>w \<in> set ms. snd p 1 = Some w"
proof -
  from assms(3) rmatch_Seq_iff
  obtain q where q: "q \<in> set (rmatch (Grp 1 (alts (map lit_str ms))) s c)"
    and p: "p \<in> set (rmatch r2 (fst q) (snd q))"
    by blast
  from rmatch_no_groups [OF assms(2) p] have "snd p = snd q" .
  with rmatch_name_group [OF assms(1) q] show ?thesis by simp
qed

lemma search_group_value:
  assumes "\<And>t p. p \<in> set (rmatch r t Map.empty) \<Longrightarrow> \<exists>w \<in> set ms. snd p 1 = Some w"
    and "regex_search s r = Some m"
  shows "sub_str m 1 \<in> set ms"
proof -
  from regex_search_Some [OF assms(2)] obtain t p ps
    where r: "rmatch r t Map.empty = p # ps" and m: "m = mk_match t p"
    by blast
  from r have "p \<in> set (rmatch r t Map.empty)" by simp
  from assms(1) [OF this] obtain w where "w \<in> set ms" "snd p 1 = Some w" by blast
  with m show ?thesis by (simp add: sub_str_def mk_match_def)
qed

lemma search_names_contains:
  assumes "ms \<noteq> []"
    and "\<And>t. rmatch r t Map.empty \<noteq> [] \<Longrightarrow> rmatch (alts (map lit_str ms)) t Map.empty \<noteq> []"
    and "regex_search s r \<noteq> None"
  shows "\<exists>w \<in> set ms. contains s w"
proof -
  from assms(3) obtain t where t: "suffix t s" and r: "rmatch r t Map.empty \<noteq> []"
    unfolding regex_search_iff by blast
  from assms(2) [OF r] rmatch_alts_lit [OF assms(1)] obtain w where "w \<in> set ms" "prefix w t"
    by blast
  with t show ?thesis unfolding contains_iff by blast
qed

lemma search_method:
  "regex_search s method_regex = Some m \<Longrightarrow> sub_str m 1 \<in> set method_names"
  "regex_search s method_regex \<noteq> None \<Longrightarrow> \<exists>w \<in> set method_names. contains s w"
proof -
  have ne: "method_names \<noteq> []" by (simp add: method_names_def)
  have g: "\<exists>w \<in> set method_names. snd p 1 = Some w"
    if "p \<in> set (rmatch method_regex t Map.empty)" for t p
    using that rmatch_name_group [OF ne] unfolding method_regex_def by blast
  show "sub_str m 1 \<in> set method_names" if "regex_search s method_regex = Some m"
    using g that by (rule search_group_value)
  have n: "rmatch (alts (map lit_str method_names)) t Map.empty \<noteq> []"
    if "rmatch method_regex t Map.empty \<noteq> []" for t
    using that rmatch_Grp_nonempty unfolding method_regex_def by blast
  show "\<exists>w \<in> set method_names. contains s w" if "regex_search s method_regex \<noteq> None"
    using ne n that by (rule search_names_contains)
qed

lemma search_basis:
  "regex_search s basis_regex = Some m \<Longrightarrow> sub_str m 1 \<in> set basis_names"
  "regex_search s basis_regex \<noteq> None \<Longrightarrow> \<exists>w \<in> set basis_names. contains s w"
proof -
  have ne: "basis_names \<noteq> []" by (simp add: basis_names_def)
  have z: "mark_count (ropt (seqs [Lit CHR ''('', Star True (Cls True [CChar CHR '')'']),
             Lit CHR '')''])) = 0"
    by (simp add: ropt_def)
  have g: "\<exists>w \<in> set basis_names. snd p 1 = Some w"
    if "p \<in> set (rmatch basis_regex t Map.empty)" for t p
    using that rmatch_name_group_Seq [OF ne z] unfolding basis_regex_def by blast
  show "sub_str m 1 \<in> set basis_names" if "regex_search s basis_regex = Some m"
    using g that by (rule search_group_value)
  have n: "rmatch (alts (map lit_str basis_names)) t Map.empty \<noteq> []"
    if "rmatch basis_regex t Map.empty \<noteq> []" for t
  proof -
    from that have "rmatch (Grp 1 (alts (map lit_str basis_names))) t Map.empty \<noteq> []"
      unfolding basis_regex_def by (rule rmatch_Seq_nonempty)
    then show ?thesis using rmatch_Grp_nonempty by blast
  qed
  show "\<exists>w \<in> set basis_names. contains s w" if "regex_search s basis_regex \<noteq> None"
    using ne n that by (rule search_names_contains)
qed

lemma search_after_literal:
  "regex_search s (Seq (lit_str w) r) \<noteq> None \<Longrightarrow> contains s w"
proof -
  assume "regex_search s (Seq (lit_str w) r) \<noteq> None"
  then obtain t where t: "suffix t s" and r: "rmatch (Seq (lit_str w) r) t Map.empty \<noteq> []"
    unfolding regex_search_iff by blast
  from r have "prefix w t" by (auto simp: rmatch_lit_str split: if_splits)
  with t show ?thesis unfolding contains_iff by blast
qed

lemma search_version:
  "regex_search s version_regex \<noteq> None \<Longrightarrow> contains s ''Gaussian''"
proof -
  assume a: "regex_search s version_regex \<noteq> None"
  obtain R where R: "version_regex = Seq (lit_str ''Gaussian'') R"
    unfolding version_regex_def by (simp only: seqs.simps)
  from a show "contains s ''Gaussian''"
    unfolding R by (rule search_after_literal)
qed

lemma rmatch_Star_nonempty: "rmatch (Star greedy r) s c \<noteq> []"
  by (subst rmatch.simps(7)) (simp add: Let_def)

lemma rmatch_route:
  "rmatch route_regex t Map.empty \<noteq> [] \<longleftrightarrow> prefix ''#'' t"
proof (cases t)
  case Nil
  then show ?thesis by (simp add: route_regex_def)
next
  case (Cons x xs)
  let ?A = "Star True (Cls True [CChar CHR 0x0A])"
  let ?B = "Star False (Seq (Lit CHR 0x0A) (Star True (Cls True [CChar CHR 0x0A, CChar CHR 0x0D])))"
  have ab: "rmatch (Seq ?A ?B) xs Map.empty \<noteq> []"
  proof -
    obtain p ps where p: "rmatch ?A xs Map.empty = p # ps"
      using rmatch_Star_nonempty [of True _ xs Map.empty] by (meson list.exhaust)
    obtain q qs where q: "rmatch ?B (fst p) (snd p) = q # qs"
      using rmatch_Star_nonempty [of False _ "fst p" "snd p"] by (meson list.exhaust)
    from p have "p \<in> set (rmatch ?A xs Map.empty)" by simp
    moreover from q have "q \<in> set (rmatch ?B (fst p) (snd p))" by simp
    ultimately have "q \<in> set (rmatch (Seq ?A ?B) xs Map.empty)"
      using rmatch_Seq_iff by blast
    then show ?thesis by (metis empty_iff empty_set)
  qed
  have "rmatch route_regex (x # xs) Map.empty =
          (if x = CHR ''#'' then rmatch (Seq ?A ?B) xs Map.empty else [])"
    by (simp add: route_regex_def)
  with ab Cons show ?thesis by simp
qed

lemma search_route:
  "regex_search s route_regex \<noteq> None \<longleftrightarrow> contains s ''#''"
  unfolding regex_search_iff contains_iff rmatch_route ..

text \<open>The fields of the record \<^verbatim>\<open>get_metadata\<close> returns for a file that opens.\<close>

lemma get_metadata_fields:
  assumes "bytes_read (fs filepath) = Some content"
  shows "status (get_metadata fs filepath) = check_job_status fs filepath"
    and "file_path (get_metadata fs filepath) = filepath"
    and "keywords (get_metadata fs filepath) = []"
    and "solvent (get_metadata fs filepath) = None"
    and "temperature (get_metadata fs filepath) = Finite 298.15"
    and "pressure (get_metadata fs filepath) = Finite 1"
    and "program_version (get_metadata fs filepath) =
           (case regex_search content version_regex of
              None \<Rightarrow> []
            | Some m \<Rightarrow> ''Gaussian '' @ sub_str m 1 @ '' '' @ sub_str m 2)"
    and "method (get_metadata fs filepath) =
           (case regex_search content route_regex of
              None \<Rightarrow> []
            | Some r \<Rightarrow> (case regex_search (m_whole r) method_regex of
                          None \<Rightarrow> []
                        | Some m \<Rightarrow> sub_str m 1))"
    and "basis_set (get_metadata fs filepath) =
           (case regex_search content route_regex of
              None \<Rightarrow> []
            | Some r \<Rightarrow> (case regex_search (m_whole r) basis_regex of
                          None \<Rightarrow> []
                        | Some m \<Rightarrow> sub_str m 1))"
  using assms
  by (simp_all add: get_metadata_def parse_output_file_bytes parse_route_section_def
        default_metadata_def Let_def sub_str_def split: option.splits
        del: regex_search.simps)

lemma get_metadata_status_eq:
  "status (get_metadata fs filepath) =
     (case bytes_read (fs filepath) of
        None \<Rightarrow> ERROR
      | Some content \<Rightarrow> check_job_status fs filepath)"
  by (simp add: get_metadata_def parse_output_file_bytes Let_def split: option.splits)

text \<open>
  Claim C9, as stated: for every readable input the status that \<^verbatim>\<open>get_metadata\<close> returns is
  not \<^verbatim>\<open>ERROR\<close>. It fails on a readable file with an error marker, whose status is the
  classifier's \<^verbatim>\<open>ERROR\<close>.
\<close>

theorem get_metadata_status_counterexample:
  "single_file ''job.log'' ''Error termination via Lnk1e'' ''job.log''
     = Readable ''Error termination via Lnk1e''
   \<and> status (get_metadata (single_file ''job.log'' ''Error termination via Lnk1e'')
         ''job.log'') = ERROR"
  by (simp add: get_metadata_status_eq check_job_status_markers contains_def
        normal_marker_def error_markers_def single_file_def)

text \<open>
  Claim C9, amended. When the file cannot be opened, \<^verbatim>\<open>get_metadata\<close> returns the default
  record with the path and the status \<^verbatim>\<open>ERROR\<close>. When the file opens, the status is the
  result of \<^verbatim>\<open>check_job_status\<close>, which is \<^verbatim>\<open>ERROR\<close> exactly when the bytes read have no
  normal-termination marker and have an error or convergence-failure marker. Missing
  fields stay empty or default: the version is empty unless its pattern is found, which
  needs the word Gaussian; method and basis set are empty unless the route line, which
  needs a \<^verbatim>\<open>#\<close>, has one of the known names, and are otherwise that name; keywords,
  solvent, temperature and pressure always keep their defaults; the path is the argument.
\<close>

theorem get_metadata_status:
  "(fs filepath = CannotOpen \<longrightarrow>
      get_metadata fs filepath = default_metadata\<lparr>file_path := filepath, status := ERROR\<rparr>)
   \<and> (bytes_read (fs filepath) = Some content \<longrightarrow>
        (let g = get_metadata fs filepath in
           status g = check_job_status fs filepath
           \<and> (status g = ERROR \<longleftrightarrow>
                \<not> contains content normal_marker
                \<and> (\<exists>w \<in> set (error_markers @ pcm_markers). contains content w))
           \<and> file_path g = filepath
           \<and> keywords g = [] \<and> solvent g = None
           \<and> temperature g = Finite 298.15 \<and> pressure g = Finite 1
           \<and> program_version g =
                (case regex_search content version_regex of
                   None \<Rightarrow> []
                 | Some m \<Rightarrow> ''Gaussian '' @ sub_str m 1 @ '' '' @ sub_str m 2)
           \<and> method g =
                (case regex_search content route_regex of
                   None \<Rightarrow> []
                 | Some r \<Rightarrow> (case regex_search (m_whole r) method_regex of
                               None \<Rightarrow> []
                             | Some m \<Rightarrow> sub_str m 1))
           \<and> basis_set g =
                (case regex_search content route_regex of
                   None \<Rightarrow> []
                 | Some r \<Rightarrow> (case regex_search (m_whole r) basis_regex of
                               None \<Rightarrow> []
                             | Some m \<Rightarrow> sub_str m 1))
           \<and> (\<not> contains content ''Gaussian'' \<longrightarrow> program_version g = [])
           \<and> (\<not> contains content ''#'' \<longrightarrow> method g = [] \<and> basis_set g = [])
           \<and> ((\<forall>w \<in> set method_names. \<not> contains content w) \<longrightarrow> method g = [])
           \<and> ((\<forall>w \<in> set basis_names. \<not> contains content w) \<longrightarrow> basis_set g = [])
           \<and> (method g = [] \<or> method g \<in> set method_names)
           \<and> (basis_set g = [] \<or> basis_set g \<in> set basis_names)))"
proof (intro conjI impI)
  assume "fs filepath = CannotOpen"
  then show "get_metadata fs filepath = default_metadata\<lparr>file_path := filepath, status := ERROR\<rparr>"
    by (simp add: get_metadata_def parse_output_file_def)
next
  assume r: "bytes_read (fs filepath) = Some content"
  note f = get_metadata_fields [of fs filepath content, OF r]
  have st: "status (get_metadata fs filepath) = ERROR \<longleftrightarrow>
          \<not> contains content normal_marker
          \<and> (\<exists>w \<in> set (error_markers @ pcm_markers). contains content w)"
    unfolding f(1) using r by (auto simp: check_job_status_markers)
  have v0: "program_version (get_metadata fs filepath) = []"
    if "\<not> contains content ''Gaussian''"
  proof -
    from that search_version have "regex_search content version_regex = None" by blast
    then show ?thesis unfolding f(7) by simp
  qed
  have r0: "method (get_metadata fs filepath) = [] \<and> basis_set (get_metadata fs filepath) = []"
    if "\<not> contains content ''#''"
  proof -
    from that search_route have "regex_search content route_regex = None" by blast
    then show ?thesis unfolding f(8) f(9) by simp
  qed
  have m0: "method (get_metadata fs filepath) = []"
    if n: "\<forall>w \<in> set method_names. \<not> contains content w"
  proof (cases "regex_search content route_regex")
    case None
    then show ?thesis unfolding f(8) by simp
  next
    case (Some r)
    have "regex_search (m_whole r) method_regex = None"
    proof (rule ccontr)
      assume "regex_search (m_whole r) method_regex \<noteq> None"
      from search_method(2) [OF this] obtain w where "w \<in> set method_names"
        "contains (m_whole r) w" by blast
      with contains_in_match [OF Some] n show False by blast
    qed
    with Some show ?thesis unfolding f(8) by simp
  qed
  have b0: "basis_set (get_metadata fs filepath) = []"
    if n: "\<forall>w \<in> set basis_names. \<not> contains content w"
  proof (cases "regex_search content route_regex")
    case None
    then show ?thesis unfolding f(9) by simp
  next
    case (Some r)
    have "regex_search (m_whole r) basis_regex = None"
    proof (rule ccontr)
      assume "regex_search (m_whole r) basis_regex \<noteq> None"
      from search_basis(2) [OF this] obtain w where "w \<in> set basis_names"
        "contains (m_whole r) w" by blast
      with contains_in_match [OF Some] n show False by blast
    qed
    with Some show ?thesis unfolding f(9) by simp
  qed
  have m1: "method (get_metadata fs filepath) = []
            \<or> method (get_metadata fs filepath) \<in> set method_names"
    unfolding f(8) using search_method(1) by (auto split: option.splits)
  have b1: "basis_set (get_metadata fs filepath) = []
            \<or> basis_set (get_metadata fs filepath) \<in> set basis_names"
    unfolding f(9) using search_basis(1) by (auto split: option.splits)
  show "let g = get_metadata fs filepath in
           status g = check_job_status fs filepath
           \<and> (status g = ERROR \<longleftrightarrow>
                \<not> contains content normal_marker
                \<and> (\<exists>w \<in> set (error_markers @ pcm_markers). contains content w))
           \<and> file_path g = filepath
           \<and> keywords g = [] \<and> solvent g = None
           \<and> temperature g = Finite 298.15 \<and> pressure g = Finite 1
           \<and> program_version g =
                (case regex_search content version_regex of
                   None \<Rightarrow> []
                 | Some m \<Rightarrow> ''Gaussian '' @ sub_str m 1 @ '' '' @ sub_str m 2)
           \<and> method g =
                (case regex_search content route_regex of
                   None \<Rightarrow> []
                 | Some r \<Rightarrow> (case regex_search (m_whole r) method_regex of
                               None \<Rightarrow> []
                             | Some m \<Rightarrow> sub_str m 1))
           \<and> basis_set g =
                (case regex_search content route_regex of
                   None \<Rightarrow> []
                 | Some r \<Rightarrow> (case regex_search (m_whole r) basis_regex of
                               None \<Rightarrow> []
                             | Some m \<Rightarrow> sub_str m 1))
           \<and> (\<not> contains content ''Gaussian'' \<longrightarrow> program_version g = [])
           \<and> (\<not> contains content ''#'' \<longrightarrow> method g = [] \<and> basis_set g = [])
           \<and> ((\<forall>w \<in> set method_names. \<not> contains content w) \<longrightarrow> method g = [])
           \<and> ((\<forall>w \<in> set basis_names. \<not> contains content w) \<longrightarrow> basis_set g = [])
           \<and> (method g = [] \<or> method g \<in> set method_names)
           \<and> (basis_set g = [] \<or> basis_set g \<in> set basis_names)"
    unfolding Let_def
    using f(1) st f(2-9) v0 r0 m0 b0 m1 b1 by blast
qed

lemmas metadata_pattern_defs = version_regex_def route_regex_def method_regex_def
  basis_regex_def method_names_def basis_names_def rplus_def ropt_def ws_def digit_def
  in_class_def rmatch.simps(7) mk_match_def sub_str_def Let_def

theorem get_metadata_status_witness:
  "get_metadata (single_file ''job.log'' ''Entering Link 1'') ''gone.log''
     = default_metadata\<lparr>file_path := ''gone.log'', status := ERROR\<rparr>
   \<and> get_metadata (single_file ''job.log'' ''Entering Link 1'') ''job.log''
     = default_metadata\<lparr>file_path := ''job.log'', status := INTERRUPTED\<rparr>
   \<and> get_metadata
         (single_file ''job.log''
            ''Gaussian 16 Revision C.01 #p B3LYP/6-31G(d) opt Error termination'')
         ''job.log''
     = default_metadata\<lparr>program_version := ''Gaussian 16 C.01'', method := ''B3LYP'',
         basis_set := ''6-31G'', file_path := ''job.log'', status := ERROR\<rparr>"
proof -
  let ?t = "''Entering Link 1''"
  let ?u = "''Gaussian 16 Revision C.01 #p B3LYP/6-31G(d) opt Error termination''"
  let ?f = "single_file ''job.log'' ?t"
  let ?g = "single_file ''job.log'' ?u"
  have n: "?f ''gone.log'' = CannotOpen" by (simp add: single_file_def)
  have s: "bytes_read (?f ''job.log'') = Some ?t" by (simp add: single_file_def)
  have r: "bytes_read (?g ''job.log'') = Some ?u" by (simp add: single_file_def)
  have ct: "check_job_status ?f ''job.log'' = INTERRUPTED"
    by (simp add: check_job_status_markers contains_def normal_marker_def error_markers_def
          pcm_markers_def single_file_def)
  have cu: "check_job_status ?g ''job.log'' = ERROR"
    by (simp add: check_job_status_markers contains_def normal_marker_def error_markers_def
          pcm_markers_def single_file_def)
  have vt: "regex_search ?t version_regex = None" "regex_search ?t route_regex = None"
    by (simp_all add: metadata_pattern_defs)
  have vu: "(case regex_search ?u version_regex of
                   None \<Rightarrow> []
                 | Some m \<Rightarrow> ''Gaussian '' @ sub_str m 1 @ '' '' @ sub_str m 2)
            = ''Gaussian 16 C.01''"
    by (simp add: metadata_pattern_defs)
  have mu: "(case regex_search ?u route_regex of
                   None \<Rightarrow> []
                 | Some r \<Rightarrow> (case regex_search (m_whole r) method_regex of
                               None \<Rightarrow> []
                             | Some m \<Rightarrow> sub_str m 1)) = ''B3LYP''"
    by (simp add: metadata_pattern_defs)
  have bu: "(case regex_search ?u route_regex of
                   None \<Rightarrow> []
                 | Some r \<Rightarrow> (case regex_search (m_whole r) basis_regex of
                               None \<Rightarrow> []
                             | Some m \<Rightarrow> sub_str m 1)) = ''6-31G''"
    by (simp add: metadata_pattern_defs)
  have 1: "get_metadata ?f ''gone.log''
             = default_metadata\<lparr>file_path := ''gone.log'', status := ERROR\<rparr>"
    using get_metadata_status [of ?f "''gone.log''" "[]"] n by blast
  have "let g = get_metadata ?f ''job.log'' in
          status g = check_job_status ?f ''job.log'' \<and> file_path g = ''job.log''
          \<and> keywords g = [] \<and> solvent g = None
          \<and> temperature g = Finite 298.15 \<and> pressure g = Finite 1
          \<and> program_version g = [] \<and> method g = [] \<and> basis_set g = []"
    using get_metadata_status [of ?f "''job.log''" ?t] s vt
    by (simp add: Let_def del: regex_search.simps)
  then have 2: "get_metadata ?f ''job.log''
             = default_metadata\<lparr>file_path := ''job.log'', status := INTERRUPTED\<rparr>"
    using ct by (cases "get_metadata ?f ''job.log''") (simp add: default_metadata_def Let_def)
  have "let g = get_metadata ?g ''job.log'' in
          status g = check_job_status ?g ''job.log'' \<and> file_path g = ''job.log''
          \<and> keywords g = [] \<and> solvent g = None
          \<and> temperature g = Finite 298.15 \<and> pressure g = Finite 1
          \<and> program_version g = ''Gaussian 16 C.01'' \<and> method g = ''B3LYP''
          \<and> basis_set g = ''6-31G''"
    using get_metadata_status [of ?g "''job.log''" ?u] r vu mu bu
    by (simp add: Let_def del: regex_search.simps)
  then have 3: "get_metadata ?g ''job.log''
     = default_metadata\<lparr>program_version := ''Gaussian 16 C.01'', method := ''B3LYP'',
         basis_set := ''6-31G'', file_path := ''job.log'', status := ERROR\<rparr>"
    using cu by (cases "get_metadata ?g ''job.log''") (simp add: default_metadata_def Let_def)
  from 1 2 3 show ?thesis by blast
qed

subsection \<open>Numerals\<close>

lemma is_digit_not_sign_point:
  "is_digit x \<Longrightarrow> x \<noteq> CHR ''-'' \<and> x \<noteq> CHR ''+'' \<and> x \<noteq> CHR ''.''"
  by (auto simp: is_digit_def)

lemma sign_part_cases: "sign_part w = [] \<or> sign_part w = ''-'' \<or> sign_part w = ''+''"
  by (auto simp: sign_part_def split: list.splits)

lemma point_frac_cases:
  "point_frac w = [] \<or> (\<exists>fr. point_frac w = CHR ''.'' # fr \<and> (\<forall>x \<in> set fr. is_digit x))"
  by (auto simp: point_frac_def split: list.splits dest: set_takeWhileD)

lemma int_part_digits: "\<forall>x \<in> set (int_part w). is_digit x"
  by (auto simp: int_part_def dest: set_takeWhileD)

text \<open>Reading the initial numeral again gives the same three parts.\<close>

lemma numeral_prefix_parts:
  assumes "numeral_prefix w \<noteq> []"
  shows "sign_part (numeral_prefix w) = sign_part w"
    and "int_part (numeral_prefix w) = int_part w"
    and "point_frac (numeral_prefix w) = point_frac w"
proof -
  let ?sg = "sign_part w" and ?ip = "int_part w" and ?pf = "point_frac w"
  from assms have np: "numeral_prefix w = ?sg @ ?ip @ ?pf"
    and ne: "?ip @ ?pf \<noteq> []"
    by (auto simp: numeral_prefix_def split: if_splits)
  have hd_ok: "\<exists>x xs. ?ip @ ?pf = x # xs \<and> x \<noteq> CHR ''-'' \<and> x \<noteq> CHR ''+''"
  proof (cases ?ip)
    case Nil
    with ne point_frac_cases [of w] show ?thesis by auto
  next
    case (Cons x xs)
    with int_part_digits [of w] is_digit_not_sign_point [of x] show ?thesis by auto
  qed
  show sg: "sign_part (numeral_prefix w) = ?sg"
    unfolding np using sign_part_cases [of w] hd_ok
    by (auto simp: sign_part_def)
  have body: "drop (length (sign_part (numeral_prefix w))) (numeral_prefix w) = ?ip @ ?pf"
    unfolding sg unfolding np by simp
  have tw: "takeWhile is_digit (?ip @ ?pf) = ?ip"
    using point_frac_cases [of w] int_part_digits [of w]
    by (auto simp: takeWhile_append2 is_digit_def)
  have dw: "dropWhile is_digit (?ip @ ?pf) = ?pf"
    using point_frac_cases [of w] int_part_digits [of w]
    by (auto simp: dropWhile_append2 is_digit_def)
  show "int_part (numeral_prefix w) = ?ip"
    unfolding int_part_def [of "numeral_prefix w"] body tw ..
  have "point_frac (numeral_prefix w) =
          (case ?pf of [] \<Rightarrow> []
           | x # xs \<Rightarrow> if x = CHR ''.'' then x # takeWhile is_digit xs else [])"
    unfolding point_frac_def [of "numeral_prefix w"] body dw ..
  also have "\<dots> = ?pf"
    using point_frac_cases [of w] by (auto simp: takeWhile_eq_all_conv)
  finally show "point_frac (numeral_prefix w) = ?pf" .
qed

lemma numeral_prefix_Nil: "numeral_prefix [] = []"
  by (simp add: numeral_prefix_def int_part_def point_frac_def sign_part_def)

lemma numeral_prefix_idem: "numeral_prefix (numeral_prefix w) = numeral_prefix w"
proof (cases "numeral_prefix w = []")
  case True
  then show ?thesis by (simp add: numeral_prefix_Nil)
next
  case False
  note parts = numeral_prefix_parts [OF False]
  have "numeral_prefix (numeral_prefix w) =
          (if int_part w = [] \<and> length (point_frac w) \<le> 1 then []
           else sign_part w @ int_part w @ point_frac w)"
    by (simp only: numeral_prefix_def [of "numeral_prefix w"] parts)
  also have "\<dots> = numeral_prefix w"
    by (simp only: numeral_prefix_def [of w])
  finally show ?thesis .
qed

lemma stod_decimal_contract: "stod_contract stod_decimal"
proof -
  have "stod_decimal w = stod_decimal (numeral_prefix w)" for w
  proof (cases "numeral_prefix w = []")
    case True
    then show ?thesis
      by (simp add: stod_decimal_def numeral_prefix_Nil)
  next
    case False
    note parts = numeral_prefix_parts [OF False]
    show ?thesis
      by (simp only: stod_decimal_def [of w] stod_decimal_def [of "numeral_prefix w"]
            numeral_prefix_idem parts)
  qed
  moreover have "numeral_prefix w = [] \<longrightarrow> (\<exists>msg. stod_decimal w = Inl (InvalidArgument msg))"
    for w
    by (simp add: stod_decimal_def)
  ultimately show ?thesis
    unfolding stod_contract_def by blast
qed

subsection \<open>What the numeric patterns capture\<close>

lemma rmatch_Star_Cls:
  "p \<in> set (rmatch (Star greedy (Cls negated items)) s c) \<Longrightarrow>
   snd p = c \<and> (\<exists>t. s = t @ fst p \<and> (\<forall>x \<in> set t. in_class negated items x))"
proof (induction s arbitrary: p rule: length_induct)
  case (1 s)
  show ?case
  proof (cases "p = (s, c)")
    case True
    then show ?thesis by simp
  next
    case False
    with 1(2) rmatch_Star_set [of greedy "Cls negated items" s c]
    obtain q where q: "q \<in> set (rmatch (Cls negated items) s c)"
      and pq: "p \<in> (if length (fst q) < length s
            then set (rmatch (Star greedy (Cls negated items)) (fst q) (snd q)) else {})"
      by blast
    from q obtain x xs where s: "s = x # xs" and x: "in_class negated items x"
      and qq: "q = (xs, c)"
      by (auto split: list.splits if_splits)
    from pq qq s have p: "p \<in> set (rmatch (Star greedy (Cls negated items)) xs c)"
      by (simp split: if_splits)
    from s have "length xs < length s" by simp
    with 1(1) p obtain t where "snd p = c" "xs = t @ fst p"
      "\<forall>x \<in> set t. in_class negated items x"
      by blast
    with s x have "snd p = c \<and> s = (x # t) @ fst p
        \<and> (\<forall>y \<in> set (x # t). in_class negated items y)"
      by simp
    then show ?thesis by blast
  qed
qed

lemma in_class_numchar:
  "in_class False [CChar CHR ''-'', CDigit, CChar CHR ''.''] x \<longleftrightarrow> is_numchar x"
  by (auto simp: in_class_def is_numchar_def is_digit_def)

lemma rmatch_numeric_group:
  assumes "p \<in> set (rmatch (Grp 1 (rplus numchar)) s c)"
  shows "\<exists>t. snd p 1 = Some t \<and> t \<noteq> [] \<and> list_all is_numchar t"
proof -
  let ?C = "Cls False [CChar CHR ''-'', CDigit, CChar CHR ''.'']"
  from assms obtain q where q: "q \<in> set (rmatch (Seq ?C (Star True ?C)) s c)"
    and p: "snd p 1 = Some (take (length s - length (fst q)) s)"
    by (auto simp: rplus_def numchar_def)
  from q rmatch_Seq_iff obtain q0 where q0: "q0 \<in> set (rmatch ?C s c)"
    and q1: "q \<in> set (rmatch (Star True ?C) (fst q0) (snd q0))"
    by blast
  from q0 obtain x xs where s: "s = x # xs" and x: "is_numchar x" and qq: "q0 = (xs, c)"
    by (auto simp: in_class_numchar split: list.splits if_splits)
  from rmatch_Star_Cls [OF q1] qq obtain t where t: "xs = t @ fst q"
    "\<forall>y \<in> set t. is_numchar y"
    by (auto simp: in_class_numchar)
  from s t(1) have "take (length s - length (fst q)) s = x # t" by simp
  with p x t(2) show ?thesis by (simp add: list_all_iff)
qed

lemma rmatch_seqs_last:
  assumes "rs \<noteq> []"
    and "\<And>s c p. p \<in> set (rmatch (last rs) s c) \<Longrightarrow> P (snd p)"
    and "p \<in> set (rmatch (seqs rs) s c)"
  shows "P (snd p)"
  using assms
proof (induction rs arbitrary: s c p rule: induct_list012)
  case 1
  then show ?case by simp
next
  case (2 r)
  then show ?case by simp
next
  case (3 r r' rs)
  from 3(5) have "p \<in> set (rmatch (Seq r (seqs (r' # rs))) s c)" by simp
  with rmatch_Seq_iff obtain q where "p \<in> set (rmatch (seqs (r' # rs)) (fst q) (snd q))"
    by blast
  moreover have "\<And>s c p. p \<in> set (rmatch (last (r' # rs)) s c) \<Longrightarrow> P (snd p)"
    using 3(4) by simp
  ultimately show ?case using 3(2) by blast
qed

text \<open>
  Group 1 of the three numeric patterns is a non-empty text of signs, digits and points.
\<close>

lemma numeric_patterns_capture:
  assumes "pattern \<in> {SCF_ENERGY, ZPE, THERMAL_CORRECTION}"
    and "regex_search content pattern = Some m"
  shows "sub_str m 1 \<noteq> [] \<and> list_all is_numchar (sub_str m 1)"
proof -
  let ?P = "\<lambda>g :: captures. \<exists>t. g 1 = Some t \<and> t \<noteq> [] \<and> list_all is_numchar t"
  have g: "?P (snd p)" if "p \<in> set (rmatch pattern s c)" for s c p
  proof -
    from assms(1) obtain rs where rs: "pattern = seqs rs" "rs \<noteq> []"
      "last rs = Grp 1 (rplus numchar)"
      unfolding SCF_ENERGY_def ZPE_def THERMAL_CORRECTION_def
      by (elim insertE emptyE) (rule that, assumption, simp, simp)+
    from that have in_seqs: "p \<in> set (rmatch (seqs rs) s c)" unfolding rs(1) .
    have last_ok: "?P (snd p)" if "p \<in> set (rmatch (last rs) s c)" for s c p
      using that unfolding rs(3) by (rule rmatch_numeric_group)
    from rs(2) last_ok in_seqs show ?thesis
      by (rule rmatch_seqs_last [where P = ?P])
  qed
  from regex_search_Some [OF assms(2)] obtain t p ps
    where r: "rmatch pattern t Map.empty = p # ps" and m: "m = mk_match t p"
    by blast
  from r have "p \<in> set (rmatch pattern t Map.empty)" by simp
  from g [OF this] m show ?thesis by (auto simp: sub_str_def mk_match_def)
qed

text \<open>The match found is the first alternative at the leftmost position that has one.\<close>

lemma regex_search_leftmost:
  "regex_search s r = Some m \<Longrightarrow>
   \<exists>pre ps. s = pre @ m_whole m @ m_suffix m
     \<and> rmatch r (m_whole m @ m_suffix m) Map.empty = (m_suffix m, m_groups m) # ps
     \<and> (\<forall>k < length pre. rmatch r (drop k s) Map.empty = [])"
proof (induction s)
  case Nil
  then obtain p ps where p: "rmatch r [] Map.empty = p # ps" and m: "m = mk_match [] p"
    by (cases "rmatch r [] Map.empty") auto
  from p have "p \<in> set (rmatch r [] Map.empty)" by simp
  from rmatch_suffix [OF this] have "fst p = []" by simp
  with p m show ?case by (cases p) (simp add: mk_match_def)
next
  case (Cons x xs)
  show ?case
  proof (cases "rmatch r (x # xs) Map.empty")
    case Nil
    with Cons.prems have "regex_search xs r = Some m" by simp
    from Cons.IH [OF this] obtain pre ps where a: "xs = pre @ m_whole m @ m_suffix m"
      and b: "rmatch r (m_whole m @ m_suffix m) Map.empty = (m_suffix m, m_groups m) # ps"
      and c: "\<forall>k < length pre. rmatch r (drop k xs) Map.empty = []"
      by blast
    have "\<forall>k < length (x # pre). rmatch r (drop k (x # xs)) Map.empty = []"
    proof (intro allI impI)
      fix k assume "k < length (x # pre)"
      then show "rmatch r (drop k (x # xs)) Map.empty = []"
        using Nil c by (cases k) simp_all
    qed
    with a b have "x # xs = (x # pre) @ m_whole m @ m_suffix m
        \<and> rmatch r (m_whole m @ m_suffix m) Map.empty = (m_suffix m, m_groups m) # ps
        \<and> (\<forall>k < length (x # pre). rmatch r (drop k (x # xs)) Map.empty = [])"
      by simp
    then show ?thesis by blast
  next
    case (Cons p ps)
    with Cons.prems have m: "m = mk_match (x # xs) p" by simp
    from Cons have "p \<in> set (rmatch r (x # xs) Map.empty)" by simp
    from rmatch_suffix [OF this] obtain u where u: "x # xs = u @ fst p"
      by (auto simp: suffix_def)
    then have w: "m_whole m = u" "m_suffix m = fst p" "m_groups m = snd p"
      using m by (simp_all add: mk_match_def)
    have "x # xs = [] @ m_whole m @ m_suffix m
        \<and> rmatch r (m_whole m @ m_suffix m) Map.empty = (m_suffix m, m_groups m) # ps
        \<and> (\<forall>k < length ([] :: string). rmatch r (drop k (x # xs)) Map.empty = [])"
      using u w Cons by simp
    then show ?thesis by blast
  qed
qed

subsection \<open>Value extraction\<close>

text \<open>Unfolding rules that evaluate the patterns and the reader on a concrete text.\<close>

lemmas pattern_defs = SCF_ENERGY_def ZPE_def THERMAL_CORRECTION_def FREQUENCIES_def
  rplus_def ropt_def ws_def digit_def numchar_def in_class_def

lemmas eval_defs = rmatch.simps(7) mk_match_def sub_str_def sub_matched_def
  regex_match_not_null_def sregex_iterator.simps extract_energy_value_def
  stod_decimal_def numeral_prefix_def sign_part_def int_part_def point_frac_def
  is_digit_def digits_value_def Let_def

text \<open>
  Claim C5, as stated: when the captured text fails to parse as a number, the default value
  is returned. It fails on a malformed numeral with a numeric prefix: the group captures
  \<^verbatim>\<open>1.5.25-3\<close>, which is not a numeral, and the result is 1.5, the value of its initial
  numeral, not the default 7. The decimal reader agrees with \<^verbatim>\<open>std::stod\<close> there, 1.5 being
  a double.
\<close>

theorem extract_energy_value_malformed_counterexample:
  "regex_search ''Zero-point correction=1.5.25-3'' ZPE =
     Some \<lparr>m_whole = ''Zero-point correction=1.5.25-3'',
           m_groups = Map.empty(1 \<mapsto> ''1.5.25-3''), m_suffix = []\<rparr>
   \<and> \<not> is_numeral ''1.5.25-3''
   \<and> extract_energy_value stod_decimal ''Zero-point correction=1.5.25-3'' ZPE (Finite 7)
       = Finite 1.5
   \<and> Finite 1.5 \<noteq> Finite 7"
  by (simp add: pattern_defs eval_defs is_numeral_def)

text \<open>
  Claim C5, amended. For every text, pattern and default value, \<^verbatim>\<open>extract_energy_value\<close>
  returns the default when the pattern does not match and when \<^verbatim>\<open>std::stod\<close> throws on
  group 1 of the first match (the first alternative at the leftmost position that has
  one), and the value \<^verbatim>\<open>std::stod\<close> returns otherwise; no exception leaves it. For a
  reader that meets the library's contract and a captured text of signs, digits and points,
  which is what the three numeric patterns of the program capture, the result is the value
  of the initial numeral of the captured text, whatever follows it, and the default when
  the text has no initial numeral or the reader throws on it.
\<close>

theorem extract_energy_value_reads_prefix:
  "(regex_search content pattern = None \<longrightarrow>
      extract_energy_value stod content pattern default_value = default_value)
   \<and> (regex_search content pattern = Some m \<and> stod (sub_str m 1) = Inr v \<longrightarrow>
        extract_energy_value stod content pattern default_value = v)
   \<and> (regex_search content pattern = Some m \<and> stod (sub_str m 1) = Inl e \<longrightarrow>
        extract_energy_value stod content pattern default_value = default_value)
   \<and> (regex_search content pattern = Some m \<longrightarrow>
        (\<exists>pre ps. content = pre @ m_whole m @ m_suffix m
           \<and> rmatch pattern (m_whole m @ m_suffix m) Map.empty
               = (m_suffix m, m_groups m) # ps
           \<and> (\<forall>k < length pre. rmatch pattern (drop k content) Map.empty = [])))
   \<and> (stod_contract stod \<and> regex_search content pattern = Some m
        \<and> list_all is_numchar (sub_str m 1) \<longrightarrow>
        extract_energy_value stod content pattern default_value =
          (if numeral_prefix (sub_str m 1) = [] then default_value
           else case stod (numeral_prefix (sub_str m 1)) of
                  Inr v \<Rightarrow> v
                | Inl e \<Rightarrow> default_value))
   \<and> (pattern \<in> {SCF_ENERGY, ZPE, THERMAL_CORRECTION}
        \<and> regex_search content pattern = Some m \<longrightarrow>
        sub_str m 1 \<noteq> [] \<and> list_all is_numchar (sub_str m 1))"
proof (intro conjI impI)
  show "extract_energy_value stod content pattern default_value = default_value"
    if "regex_search content pattern = None"
    using that by (simp add: extract_energy_value_def)
  show "extract_energy_value stod content pattern default_value = v"
    if "regex_search content pattern = Some m \<and> stod (sub_str m 1) = Inr v"
    using that by (simp add: extract_energy_value_def)
  show "extract_energy_value stod content pattern default_value = default_value"
    if "regex_search content pattern = Some m \<and> stod (sub_str m 1) = Inl e"
    using that by (simp add: extract_energy_value_def)
  show "\<exists>pre ps. content = pre @ m_whole m @ m_suffix m
           \<and> rmatch pattern (m_whole m @ m_suffix m) Map.empty
               = (m_suffix m, m_groups m) # ps
           \<and> (\<forall>k < length pre. rmatch pattern (drop k content) Map.empty = [])"
    if "regex_search content pattern = Some m"
    using that by (rule regex_search_leftmost)
  show "extract_energy_value stod content pattern default_value =
          (if numeral_prefix (sub_str m 1) = [] then default_value
           else case stod (numeral_prefix (sub_str m 1)) of
                  Inr v \<Rightarrow> v
                | Inl e \<Rightarrow> default_value)"
    if a: "stod_contract stod \<and> regex_search content pattern = Some m
        \<and> list_all is_numchar (sub_str m 1)"
  proof -
    from a have eq: "stod (sub_str m 1) = stod (numeral_prefix (sub_str m 1))"
      and no: "numeral_prefix (sub_str m 1) = [] \<longrightarrow>
                 (\<exists>msg. stod (sub_str m 1) = Inl (InvalidArgument msg))"
      unfolding stod_contract_def by blast+
    have "extract_energy_value stod content pattern default_value =
            (case stod (sub_str m 1) of Inr v \<Rightarrow> v | Inl e \<Rightarrow> default_value)"
      using a by (simp add: extract_energy_value_def)
    then show ?thesis
      using eq no by (cases "numeral_prefix (sub_str m 1) = []") auto
  qed
  show "sub_str m 1 \<noteq> []" "list_all is_numchar (sub_str m 1)"
    if "pattern \<in> {SCF_ENERGY, ZPE, THERMAL_CORRECTION}
        \<and> regex_search content pattern = Some m"
    using that numeric_patterns_capture by blast+
qed

theorem extract_energy_value_reads_prefix_witness:
  "extract_energy_value stod_decimal ''SCF Done:  E(RHF) = -76.123456'' SCF_ENERGY (Finite 0)
     = Finite (- 76.123456)
   \<and> extract_energy_value stod_decimal ''SCF Done:  E(RHF) = -76.123456'' ZPE (Finite 0)
       = Finite 0
   \<and> extract_energy_value stod_decimal ''Zero-point correction= -'' ZPE (Finite 7)
       = Finite 7
   \<and> extract_energy_value stod_decimal ''Zero-point correction=1.5.25-3'' ZPE (Finite 7)
       = Finite 1.5"
proof -
  let ?t = "''SCF Done:  E(RHF) = -76.123456''"
  let ?m = "\<lparr>m_whole = ?t, m_groups = [1 \<mapsto> ''-76.123456''], m_suffix = []\<rparr>"
  let ?u = "''Zero-point correction= -''"
  let ?n = "\<lparr>m_whole = ?u, m_groups = [1 \<mapsto> ''-''], m_suffix = []\<rparr>"
  let ?x = "''Zero-point correction=1.5.25-3''"
  let ?k = "\<lparr>m_whole = ?x, m_groups = [1 \<mapsto> ''1.5.25-3''], m_suffix = []\<rparr>"
  have a: "regex_search ?t SCF_ENERGY = Some ?m
           \<and> stod_decimal (sub_str ?m 1) = Inr (Finite (- 76.123456))"
    by (simp add: pattern_defs eval_defs)
  have b: "regex_search ?t ZPE = None"
    by (simp add: pattern_defs eval_defs)
  have c: "regex_search ?u ZPE = Some ?n \<and> list_all is_numchar (sub_str ?n 1)
           \<and> numeral_prefix (sub_str ?n 1) = []"
    by (simp add: pattern_defs eval_defs is_numchar_def)
  have d: "regex_search ?x ZPE = Some ?k \<and> list_all is_numchar (sub_str ?k 1)
           \<and> numeral_prefix (sub_str ?k 1) = ''1.5''
           \<and> stod_decimal ''1.5'' = Inr (Finite 1.5)"
    by (simp add: pattern_defs eval_defs is_numchar_def)
  note k = stod_decimal_contract
  have 1: "extract_energy_value stod_decimal ?t SCF_ENERGY (Finite 0) = Finite (- 76.123456)"
    using extract_energy_value_reads_prefix
         [where content = ?t and pattern = SCF_ENERGY and m = ?m and stod = stod_decimal
            and v = "Finite (- 76.123456)" and default_value = "Finite 0"] a
    by blast
  have 2: "extract_energy_value stod_decimal ?t ZPE (Finite 0) = Finite 0"
    using extract_energy_value_reads_prefix
         [where content = ?t and pattern = ZPE and stod = stod_decimal
            and default_value = "Finite 0"] b
    by blast
  have "extract_energy_value stod_decimal ?u ZPE (Finite 7) =
          (if numeral_prefix (sub_str ?n 1) = [] then Finite 7
           else case stod_decimal (numeral_prefix (sub_str ?n 1)) of
                  Inr v \<Rightarrow> v
                | Inl e \<Rightarrow> Finite 7)"
    using extract_energy_value_reads_prefix
         [where content = ?u and pattern = ZPE and m = ?n and stod = stod_decimal
            and default_value = "Finite 7"] c k
    by blast
  with c have 3: "extract_energy_value stod_decimal ?u ZPE (Finite 7) = Finite 7"
    by simp
  have "extract_energy_value stod_decimal ?x ZPE (Finite 7) =
          (if numeral_prefix (sub_str ?k 1) = [] then Finite 7
           else case stod_decimal (numeral_prefix (sub_str ?k 1)) of
                  Inr v \<Rightarrow> v
                | Inl e \<Rightarrow> Finite 7)"
    using extract_energy_value_reads_prefix
         [where content = ?x and pattern = ZPE and m = ?k and stod = stod_decimal
            and default_value = "Finite 7"] d k
    by blast
  with d have 4: "extract_energy_value stod_decimal ?x ZPE (Finite 7) = Finite 1.5"
    by simp
  from 1 2 3 4 show ?thesis by blast
qed

subsection \<open>Validation\<close>

lemma validate_results_iff:
  "validate_results c \<longleftrightarrow>
     (\<exists>x. electronic_energy c = Finite x \<and> - 10000 \<le> x \<and> x \<le> 0)
     \<and> \<not> dless (zero_point_energy c) (Finite 0)"
  by (cases "electronic_energy c") (auto simp: validate_results_def dgreater_def)

lemma extract_energies_readable:
  "bytes_read (fs filepath) = Some content \<Longrightarrow>
   extract_components stod content = Inr c \<Longrightarrow>
   extract_energies fs stod filepath =
     (if validate_results c then Inr c
      else Inl (RuntimeError
             (''Failed to extract energies from '' @ filepath @ '': '' @ validation_message)))"
  by (simp add: extract_energies_def extract_energies_try_def parse_output_file_bytes)

text \<open>
  Claim C1. Let \<^verbatim>\<open>extract_energies\<close> open a file and extract the components \<open>c\<close> from
  the bytes read. If the electronic energy of \<open>c\<close> is greater than 0, or less than -10000, or NaN, or
  infinite, or the zero-point energy is less than 0, then \<^verbatim>\<open>extract_energies\<close> fails
  with the validation error and does not return \<open>c\<close>. If the electronic energy lies in
  [-10000, 0] and the zero-point energy is non-negative, it returns \<open>c\<close>.
\<close>

theorem extract_energies_validation:
  assumes "bytes_read (fs filepath) = Some content"
    and "extract_components stod content = Inr c"
  shows "(dgreater (electronic_energy c) (Finite 0)
          \<or> dless (electronic_energy c) (Finite (- 10000))
          \<or> dless (zero_point_energy c) (Finite 0)
          \<or> isnan (electronic_energy c) \<or> isinf (electronic_energy c)
          \<longrightarrow> extract_energies fs stod filepath =
                Inl (RuntimeError (''Failed to extract energies from '' @ filepath @ '': ''
                                   @ validation_message)))
         \<and> ((\<exists>x. electronic_energy c = Finite x \<and> - 10000 \<le> x \<and> x \<le> 0)
              \<and> (zero_point_energy c = PosInf
                   \<or> (\<exists>z. zero_point_energy c = Finite z \<and> 0 \<le> z))
          \<longrightarrow> extract_energies fs stod filepath = Inr c)"
proof (intro conjI impI)
  assume bad: "dgreater (electronic_energy c) (Finite 0)
          \<or> dless (electronic_energy c) (Finite (- 10000))
          \<or> dless (zero_point_energy c) (Finite 0)
          \<or> isnan (electronic_energy c) \<or> isinf (electronic_energy c)"
  have "\<not> validate_results c"
    using bad by (cases "electronic_energy c") (auto simp: validate_results_iff dgreater_def)
  with assms show "extract_energies fs stod filepath =
      Inl (RuntimeError (''Failed to extract energies from '' @ filepath @ '': ''
                         @ validation_message))"
    by (simp add: extract_energies_readable)
next
  assume good: "(\<exists>x. electronic_energy c = Finite x \<and> - 10000 \<le> x \<and> x \<le> 0)
              \<and> (zero_point_energy c = PosInf
                   \<or> (\<exists>z. zero_point_energy c = Finite z \<and> 0 \<le> z))"
  then have "validate_results c"
    by (auto simp: validate_results_iff)
  with assms show "extract_energies fs stod filepath = Inr c"
    by (simp add: extract_energies_readable)
qed

theorem extract_energies_validation_witness:
  "extract_energies (single_file ''job.log'' ''SCF Done:  E(RHF) = 76.5'') stod_decimal
     ''job.log''
     = Inl (RuntimeError
         ''Failed to extract energies from job.log: Extracted energy components failed validation'')
   \<and> extract_energies (single_file ''job.log'' ''SCF Done:  E(RHF) = -76.123456'')
         stod_decimal ''job.log''
       = Inr (default_components\<lparr>electronic_energy := Finite (- 76.123456)\<rparr>)"
proof -
  let ?bad = "''SCF Done:  E(RHF) = 76.5''"
  let ?good = "''SCF Done:  E(RHF) = -76.123456''"
  let ?cb = "default_components\<lparr>electronic_energy := Finite 76.5\<rparr>"
  let ?cg = "default_components\<lparr>electronic_energy := Finite (- 76.123456)\<rparr>"
  have b1: "bytes_read (single_file ''job.log'' ?bad ''job.log'') = Some ?bad"
    and g1: "bytes_read (single_file ''job.log'' ?good ''job.log'') = Some ?good"
    by (simp_all add: single_file_def)
  have b2: "extract_components stod_decimal ?bad = Inr ?cb"
    by (simp add: extract_components_def default_components_def pattern_defs eval_defs)
  have g2: "extract_components stod_decimal ?good = Inr ?cg"
    by (simp add: extract_components_def default_components_def pattern_defs eval_defs)
  have b3: "dgreater (electronic_energy ?cb) (Finite 0)"
    by (simp add: dgreater_def default_components_def)
  have g3: "(\<exists>x. electronic_energy ?cg = Finite x \<and> - 10000 \<le> x \<and> x \<le> 0)
            \<and> (zero_point_energy ?cg = PosInf
                 \<or> (\<exists>z. zero_point_energy ?cg = Finite z \<and> 0 \<le> z))"
    by (simp add: default_components_def)
  have B: "extract_energies (single_file ''job.log'' ?bad) stod_decimal ''job.log'' =
      Inl (RuntimeError (''Failed to extract energies from '' @ ''job.log'' @ '': ''
                         @ validation_message))"
    using extract_energies_validation
         [where fs = "single_file ''job.log'' ?bad" and filepath = "''job.log''", OF b1 b2] b3
    by blast
  have G: "extract_energies (single_file ''job.log'' ?good) stod_decimal ''job.log'' = Inr ?cg"
    using extract_energies_validation
         [where fs = "single_file ''job.log'' ?good" and filepath = "''job.log''", OF g1 g2] g3
    by blast
  from B G show ?thesis by (simp add: validation_message_def)
qed

subsection \<open>Energy composition\<close>

text \<open>
  Claim C4. When \<^verbatim>\<open>extract_energies\<close> succeeds on the low-level file and on the high-level
  file, \<^verbatim>\<open>calculate_high_level_energy\<close> succeeds too, with no check of its own: the
  electronic energy of its result is that of the high-level file and every other field is
  that of the low-level file.
\<close>

theorem calculate_high_level_energy_composition:
  assumes "extract_energies fs stod low_level_path = Inr l"
    and "extract_energies fs stod high_level_path = Inr h"
  shows "\<exists>c. calculate_high_level_energy fs stod low_level_path high_level_path = Inr c
           \<and> electronic_energy c = electronic_energy h
           \<and> zero_point_energy c = zero_point_energy l
           \<and> thermal_correction c = thermal_correction l
           \<and> enthalpy_correction c = enthalpy_correction l
           \<and> gibbs_correction c = gibbs_correction l
           \<and> entropy c = entropy l
           \<and> nuclear_repulsion c = nuclear_repulsion l
           \<and> frequencies c = frequencies l
           \<and> has_imaginary_freq c = has_imaginary_freq l
           \<and> dispersion_correction c = dispersion_correction l
           \<and> solvation_energy c = solvation_energy l
           \<and> counterpoise_correction c = counterpoise_correction l"
  using assms by (simp add: calculate_high_level_energy_def)

theorem calculate_high_level_energy_composition_witness:
  "calculate_high_level_energy
     ((single_file ''low.log'' ''SCF Done:  E(RB3LYP) = -76.4 Zero-point correction= 0.02 Frequencies -- -15.5 1600.2'')
        (''high.log'' := Readable ''SCF Done:  E(RCCSD) = -76.5''))
     stod_decimal ''low.log'' ''high.log''
   = Inr (default_components
            \<lparr>electronic_energy := Finite (- 76.5), zero_point_energy := Finite 0.02,
             frequencies := [Finite (- 15.5), Finite 1600.2],
             has_imaginary_freq := True\<rparr>)"
proof -
  let ?L = "''SCF Done:  E(RB3LYP) = -76.4 Zero-point correction= 0.02 Frequencies -- -15.5 1600.2''"
  let ?H = "''SCF Done:  E(RCCSD) = -76.5''"
  let ?fs = "(single_file ''low.log'' ?L)(''high.log'' := Readable ?H)"
  let ?l = "default_components
            \<lparr>electronic_energy := Finite (- 76.4), zero_point_energy := Finite 0.02,
             frequencies := [Finite (- 15.5), Finite 1600.2],
             has_imaginary_freq := True\<rparr>"
  let ?h = "default_components\<lparr>electronic_energy := Finite (- 76.5)\<rparr>"
  have cl: "extract_components stod_decimal ?L = Inr ?l"
    by (simp add: extract_components_def default_components_def pattern_defs eval_defs)
  have ch: "extract_components stod_decimal ?H = Inr ?h"
    by (simp add: extract_components_def default_components_def pattern_defs eval_defs)
  have fl: "bytes_read (?fs ''low.log'') = Some ?L"
    and fh: "bytes_read (?fs ''high.log'') = Some ?H"
    by (simp_all add: single_file_def)
  have vl: "validate_results ?l" and vh: "validate_results ?h"
    by (simp_all add: validate_results_iff default_components_def)
  have el: "extract_energies ?fs stod_decimal ''low.log'' = Inr ?l"
    using extract_energies_readable [of ?fs "''low.log''", OF fl cl] vl by simp
  have eh: "extract_energies ?fs stod_decimal ''high.log'' = Inr ?h"
    using extract_energies_readable [of ?fs "''high.log''", OF fh ch] vh by simp
  from calculate_high_level_energy_composition [OF el eh]
  obtain c where c: "calculate_high_level_energy ?fs stod_decimal ''low.log'' ''high.log'' = Inr c"
    and f: "electronic_energy c = electronic_energy ?h"
      "zero_point_energy c = zero_point_energy ?l"
      "thermal_correction c = thermal_correction ?l"
      "enthalpy_correction c = enthalpy_correction ?l"
      "gibbs_correction c = gibbs_correction ?l"
      "entropy c = entropy ?l"
      "nuclear_repulsion c = nuclear_repulsion ?l"
      "frequencies c = frequencies ?l"
      "has_imaginary_freq c = has_imaginary_freq ?l"
      "dispersion_correction c = dispersion_correction ?l"
      "solvation_energy c = solvation_energy ?l"
      "counterpoise_correction c = counterpoise_correction ?l"
    by blast
  from f have "c = default_components
            \<lparr>electronic_energy := Finite (- 76.5), zero_point_energy := Finite 0.02,
             frequencies := [Finite (- 15.5), Finite 1600.2],
             has_imaginary_freq := True\<rparr>"
    by (cases c) (simp add: default_components_def)
  with c show ?thesis by simp
qed

subsection \<open>Dispersion correction\<close>

lemma contains_prefix:
  "prefix v w \<Longrightarrow> contains s w \<Longrightarrow> contains s v"
  unfolding contains_iff by (meson prefix_order.trans)

text \<open>
  The third test of \<^verbatim>\<open>get_dispersion_type\<close> is never reached with a true condition: a
  text with the combined label has the generic one, which the first test finds.
\<close>

lemma get_dispersion_type_never_D3BJ:
  "get_dispersion_type fs filepath \<noteq> Some ''D3BJ''"
proof (cases "bytes_read (fs filepath)")
  case None
  then show ?thesis by (simp add: get_dispersion_type_def parse_output_file_bytes)
next
  case (Some content)
  have a: "contains content ''GD3BJ'' \<Longrightarrow> contains content ''GD3''"
    by (rule contains_prefix [of "''GD3''" "''GD3BJ''"]) simp_all
  have b: "contains content ''D3BJ'' \<Longrightarrow> contains content ''D3''"
    by (rule contains_prefix [of "''D3''" "''D3BJ''"]) simp_all
  from a b Some show ?thesis
    unfolding contains_def get_dispersion_type_def parse_output_file_bytes
    by auto
qed

text \<open>
  Claim C8 says that a text with the combined label \<^verbatim>\<open>D3BJ\<close> is reported as \<^verbatim>\<open>D3BJ\<close>.
  On a route line that asks for \<^verbatim>\<open>GD3BJ\<close> the function returns the generic \<^verbatim>\<open>D3\<close>.
\<close>

theorem get_dispersion_type_combined_label:
  "get_dispersion_type (single_file ''job.log'' ''# B3LYP/6-31G(d) EmpiricalDispersion=GD3BJ'')
     ''job.log'' = Some ''D3''"
  by (simp add: get_dispersion_type_def parse_output_file_def single_file_def)

theorem get_dispersion_type_combined_label_witness:
  "get_dispersion_type (single_file ''job.log'' ''# B3LYP/6-31G(d) EmpiricalDispersion=GD3BJ'')
     ''job.log'' \<noteq> Some ''D3BJ''"
  using get_dispersion_type_combined_label by simp

subsection \<open>The registry\<close>






lemma same_letter_tolower_self: "same_letter (tolower x) x"
proof (cases "is_upper x")
  case True
  then have "of_char x + (32::nat) < 256" by (simp add: is_upper_def)
  then have "(of_char (char_of (of_char x + (32::nat))) :: nat) = of_char x + 32"
    by (simp add: of_char_of)
  with True show ?thesis by (simp add: same_letter_def tolower_def is_upper_def)
next
  case False
  then show ?thesis by (simp add: same_letter_def tolower_def is_upper_def)
qed

lemma same_ignoring_case_normalize_self:
  "same_ignoring_case (normalize_program_name name) name"
  unfolding same_ignoring_case_def normalize_program_name_def
  by (induction name) (simp_all add: same_letter_tolower_self)

text \<open>
  Claim C7. When the registry has no entry for a name, in the sense of
  \<^verbatim>\<open>is_program_supported\<close> or because no key is a casing of the name,
  \<^verbatim>\<open>create_qm_program\<close> fails with the runtime error whose message ends with the name as
  the caller wrote it.
\<close>

theorem create_unsupported:
  assumes "\<not> is_program_supported reg name
           \<or> (\<forall>k \<in> dom reg. \<not> same_ignoring_case k name)"
  shows "create_qm_program reg name =
           Inl (RuntimeError (''Unsupported quantum chemistry program: '' @ name))"
proof -
  have "reg (normalize_program_name name) = None"
  proof (rule ccontr)
    assume "reg (normalize_program_name name) \<noteq> None"
    then have "is_program_supported reg name" and "normalize_program_name name \<in> dom reg"
      by (auto simp: is_program_supported_def)
    with assms same_ignoring_case_normalize_self [of name] show False by blast
  qed
  then show ?thesis
    by (simp add: create_qm_program_def unsupported_message_def)
qed

theorem create_unsupported_witness:
  "\<not> is_program_supported (Map.empty :: string registry) ''klingon-chem''
   \<and> create_qm_program (Map.empty :: string registry) ''klingon-chem''
       = Inl (RuntimeError ''Unsupported quantum chemistry program: klingon-chem'')
   \<and> create_qm_program (register_qm_program ''Gaussian'' (\<lambda>u. Inr ''g'') Map.empty)
         ''Klingon-Chem''
       = Inl (RuntimeError ''Unsupported quantum chemistry program: Klingon-Chem'')"
proof -
  let ?r = "register_qm_program ''Gaussian'' (\<lambda>u. Inr ''g'' :: exn + string) Map.empty"
  have a: "\<not> is_program_supported (Map.empty :: string registry) ''klingon-chem''"
    by (simp add: is_program_supported_def)
  have b: "\<forall>k \<in> dom ?r. \<not> same_ignoring_case k ''Klingon-Chem''"
    by (simp add: register_qm_program_def normalize_program_name_def tolower_def
          same_ignoring_case_def same_letter_def is_upper_def)
  from create_unsupported [of "Map.empty :: string registry" "''klingon-chem''"] a
  have 1: "create_qm_program (Map.empty :: string registry) ''klingon-chem''
       = Inl (RuntimeError ''Unsupported quantum chemistry program: klingon-chem'')"
    by simp
  from create_unsupported [of ?r "''Klingon-Chem''"] b
  have 2: "create_qm_program ?r ''Klingon-Chem''
       = Inl (RuntimeError ''Unsupported quantum chemistry program: Klingon-Chem'')"
    by simp
  from a 1 2 show ?thesis by blast
qed

end
